theory Spec2Isabelle
  imports Main "HOL-Library.AList"
begin

section \<open>Text primitives\<close>

text \<open>
  A Python \<open>str\<close> is modelled as a list of 8-bit characters, each read as the code point
  of the same number (the Latin-1 range). The character classes below are those of
  Python 3's \<open>re\<close> module and of \<open>str.isspace\<close>, \<open>str.lower\<close> on that range.
\<close>

definition code :: "char \<Rightarrow> int" where
  "code c = of_char c"

definition is_space :: "char \<Rightarrow> bool" where
  "is_space c = (let n = code c in (9 \<le> n \<and> n \<le> 13) \<or> (28 \<le> n \<and> n \<le> 32) \<or> n = 133 \<or> n = 160)"

definition is_digit :: "char \<Rightarrow> bool" where
  "is_digit c = (let n = code c in 48 \<le> n \<and> n \<le> 57)"

definition is_word :: "char \<Rightarrow> bool" where
  "is_word c = (let n = code c in
     (48 \<le> n \<and> n \<le> 57) \<or> (65 \<le> n \<and> n \<le> 90) \<or> n = 95 \<or> (97 \<le> n \<and> n \<le> 122) \<or>
     n = 170 \<or> n = 178 \<or> n = 179 \<or> n = 181 \<or> n = 185 \<or> n = 186 \<or> (188 \<le> n \<and> n \<le> 190) \<or>
     (192 \<le> n \<and> n \<le> 214) \<or> (216 \<le> n \<and> n \<le> 246) \<or> (248 \<le> n \<and> n \<le> 255))"

definition lower_chr :: "char \<Rightarrow> char" where
  "lower_chr c = (let n = code c in
     if (65 \<le> n \<and> n \<le> 90) \<or> (192 \<le> n \<and> n \<le> 222 \<and> n \<noteq> 215) then char_of (n + 32) else c)"

definition lower :: "string \<Rightarrow> string" where
  "lower s = map lower_chr s"

definition strip :: "string \<Rightarrow> string" where
  "strip s = rev (dropWhile is_space (rev (dropWhile is_space s)))"

fun starts_with :: "string \<Rightarrow> string \<Rightarrow> bool" where
  "starts_with [] inp = True"
| "starts_with (p # ps) [] = False"
| "starts_with (p # ps) (c # cs) = (p = c \<and> starts_with ps cs)"

text \<open>Python's \<open>sub in s\<close> for strings.\<close>

fun contains :: "string \<Rightarrow> string \<Rightarrow> bool" where
  "contains sub [] = (sub = [])"
| "contains sub (c # cs) = (starts_with sub (c # cs) \<or> contains sub cs)"

section \<open>Regular expressions\<close>

text \<open>
  The patterns of the source repeat character classes only, so the syntax has greedy
  \<open>Star\<close> and \<open>Plus\<close> over a class. \<open>rx_match\<close> lists the ways a pattern matches a
  prefix of the input, in the order in which the backtracking matcher of Python's \<open>re\<close>
  tries them (greedy repetition longest first, alternatives left to right, an optional
  part first with and then without its body); each way is the captured groups, in the
  order of their opening parentheses, and the input left over.
\<close>

datatype rx =
    Lit string
  | Cls "char \<Rightarrow> bool"
  | Star "char \<Rightarrow> bool"
  | Plus "char \<Rightarrow> bool"
  | Seq rx rx
  | Alt rx rx
  | Opt rx
  | Grp rx

fun lit_match :: "bool \<Rightarrow> string \<Rightarrow> string \<Rightarrow> bool" where
  "lit_match ic [] inp = True"
| "lit_match ic (p # ps) [] = False"
| "lit_match ic (p # ps) (c # cs) =
     ((if ic then lower_chr c = lower_chr p else c = p) \<and> lit_match ic ps cs)"

fun star_rests :: "(char \<Rightarrow> bool) \<Rightarrow> string \<Rightarrow> string list" where
  "star_rests p [] = [[]]"
| "star_rests p (c # cs) = (if p c then star_rests p cs @ [c # cs] else [c # cs])"

fun rx_match :: "bool \<Rightarrow> rx \<Rightarrow> string \<Rightarrow> (string list \<times> string) list" where
  "rx_match ic (Lit s) inp = (if lit_match ic s inp then [([], drop (length s) inp)] else [])"
| "rx_match ic (Cls p) inp = (case inp of [] \<Rightarrow> [] | c # cs \<Rightarrow> if p c then [([], cs)] else [])"
| "rx_match ic (Star p) inp = map (Pair []) (star_rests p inp)"
| "rx_match ic (Plus p) inp =
     (case inp of [] \<Rightarrow> [] | c # cs \<Rightarrow> if p c then map (Pair []) (star_rests p cs) else [])"
| "rx_match ic (Seq a b) inp =
     concat (map (\<lambda>(g1, r1). map (\<lambda>(g2, r2). (g1 @ g2, r2)) (rx_match ic b r1)) (rx_match ic a inp))"
| "rx_match ic (Alt a b) inp = rx_match ic a inp @ rx_match ic b inp"
| "rx_match ic (Opt a) inp = rx_match ic a inp @ [([], inp)]"
| "rx_match ic (Grp a) inp =
     map (\<lambda>(g, r). (take (length inp - length r) inp # g, r)) (rx_match ic a inp)"

fun seqs :: "rx list \<Rightarrow> rx" where
  "seqs [] = Lit []"
| "seqs [r] = r"
| "seqs (r # rs) = Seq r (seqs rs)"

fun alts :: "string list \<Rightarrow> rx" where
  "alts [] = Cls (\<lambda>c. False)"
| "alts [s] = Lit s"
| "alts (s # ss) = Alt (Lit s) (alts ss)"

text \<open>
  \<open>re.search\<close>: the first way of matching at the leftmost position that has one. The
  result is group 0 (the matched text) and the captured groups.
\<close>

fun re_search :: "bool \<Rightarrow> rx \<Rightarrow> string \<Rightarrow> (string \<times> string list) option" where
  "re_search ic r inp =
     (case rx_match ic r inp of
        (g, rest) # _ \<Rightarrow> Some (take (length inp - length rest) inp, g)
      | [] \<Rightarrow> (case inp of [] \<Rightarrow> None | c # cs \<Rightarrow> re_search ic r cs))"

text \<open>\<open>m.group(1)\<close> of a match of a pattern that has a group.\<close>

definition group1 :: "string list \<Rightarrow> string" where
  "group1 gs = (case gs of [] \<Rightarrow> [] | g # _ \<Rightarrow> g)"

declare re_search.simps [simp del]

text \<open>
  \<open>re.findall\<close>: the captured groups of the successive non-overlapping matches, from left
  to right; \<open>skip\<close> counts the characters of the last match still to be passed over.
\<close>

fun findall_from :: "bool \<Rightarrow> rx \<Rightarrow> nat \<Rightarrow> string \<Rightarrow> string list list" where
  "findall_from ic r (Suc k) [] = []"
| "findall_from ic r (Suc k) (c # cs) = findall_from ic r k cs"
| "findall_from ic r 0 inp =
     (case rx_match ic r inp of
        (g, rest) # _ \<Rightarrow>
          g # (case inp of [] \<Rightarrow> [] | c # cs \<Rightarrow> findall_from ic r (length inp - length rest - 1) cs)
      | [] \<Rightarrow> (case inp of [] \<Rightarrow> [] | c # cs \<Rightarrow> findall_from ic r 0 cs))"

definition re_findall :: "bool \<Rightarrow> rx \<Rightarrow> string \<Rightarrow> string list list" where
  "re_findall ic r inp = findall_from ic r 0 inp"

section \<open>Template choice (extract_template_preference)\<close>

definition rx_template_select :: rx where
  "rx_template_select = seqs
     [alts [''use'', ''select'', ''choose'', ''prefer'', ''want'', ''generate'', ''create'', ''try''],
      Plus is_space, Opt (Seq (Lit ''the'') (Plus is_space)),
      Lit ''template'', Plus is_space, Grp (Cls is_digit)]"

definition rx_template_number :: rx where
  "rx_template_number = seqs
     [Lit ''template'', Star is_space, Opt (Alt (Lit ''number'') (Lit ''#'')), Star is_space,
      Grp (Cls is_digit)]"

definition template1_words :: "string list" where
  "template1_words = [''modern home'', ''for sale'', ''start from'', ''buy now'']"

definition template2_words :: "string list" where
  "template2_words = [''house agent'', ''information'', ''contact'', ''technology'', ''template 2'']"

definition template3_words :: "string list" where
  "template3_words = [''best home'', ''multiple photos'', ''i want button'', ''three images'', ''template 3'']"

text \<open>\<open>int(s)\<close> on a string of decimal digits.\<close>

definition int_of_digits :: "string \<Rightarrow> int" where
  "int_of_digits s = foldl (\<lambda>a c. 10 * a + (code c - 48)) 0 s"

text \<open>
  The number of a template match when it is between 1 and 3 (the two nested \<open>if\<close>s of the
  source, which fall through otherwise).
\<close>

definition template_num :: "(string \<times> string list) option \<Rightarrow> int option" where
  "template_num m =
     (case m of
        None \<Rightarrow> None
      | Some (g0, gs) \<Rightarrow>
          (let n = int_of_digits (group1 gs) in if 1 \<le> n \<and> n \<le> 3 then Some n else None))"

definition extract_template_preference :: "string \<Rightarrow> int" where
  "extract_template_preference text =
     (case template_num (re_search True rx_template_select text) of
        Some n \<Rightarrow> n
      | None \<Rightarrow>
         (case template_num (re_search True rx_template_number text) of
            Some n \<Rightarrow> n
          | None \<Rightarrow>
             if re_search True (alts template1_words) text \<noteq> None then 1
             else if re_search True (alts template2_words) text \<noteq> None then 2
             else if re_search True (alts template3_words) text \<noteq> None then 3
             else 1))"

section \<open>Numbers (int(float(s)) and "${:,}".format)\<close>

datatype py_error = ValueError | OverflowError | AttributeError

fun bits :: "int \<Rightarrow> int" where
  "bits n = (if n \<le> 0 then 0 else 1 + bits (n div 2))"

declare bits.simps [simp del]

definition round_half_even :: "int \<Rightarrow> int \<Rightarrow> int" where
  "round_half_even a b =
     (let q = a div b; r = a mod b
      in if 2 * r < b then q else if b < 2 * r then q + 1 else if even q then q else q + 1)"

text \<open>
  \<open>int(float(s))\<close> for the decimal numeral \<open>n / d\<close>: \<open>float\<close> rounds the value to the
  nearest number with 53 significant bits (ties to even), \<open>int\<close> truncates it, and raises
  OverflowError when the rounded value is beyond the largest double (it is \<open>inf\<close>).
  \<open>e\<close> is the binary exponent of the value, \<open>2 ^ e \<le> n / d < 2 ^ (e + 1)\<close>.
\<close>

definition int_of_float_ratio :: "int \<Rightarrow> int \<Rightarrow> py_error + int" where
  "int_of_float_ratio n d =
     (if n = 0 then Inr 0
      else
        let e0 = bits n - bits d;
            ge = (if 0 \<le> e0 then d * 2 ^ nat e0 \<le> n else d \<le> n * 2 ^ nat (- e0));
            e = (if ge then e0 else e0 - 1);
            s = 52 - e
        in if 0 \<le> s then Inr (round_half_even (n * 2 ^ nat s) d div 2 ^ nat s)
           else
             let v = round_half_even n (d * 2 ^ nat (- s)) * 2 ^ nat (- s)
             in if 2 ^ 1024 \<le> v then Inl OverflowError else Inr v)"

text \<open>
  \<open>int(float(s))\<close> on a string of digits and dots, which is what the call sites pass (a
  match of \<open>[\d,.]+\<close> with the commas removed): a ValueError unless the string is digits
  with at most one dot and at least one digit.
\<close>

definition py_int_float :: "string \<Rightarrow> py_error + int" where
  "py_int_float s =
     (let ip = takeWhile (\<lambda>c. c \<noteq> CHR ''.'') s;
          fp = drop 1 (dropWhile (\<lambda>c. c \<noteq> CHR ''.'') s)
      in if \<not> list_all is_digit (ip @ fp) \<or> ip @ fp = [] then Inl ValueError
         else int_of_float_ratio (int_of_digits (ip @ fp)) (10 ^ length fp))"

fun show_nat :: "int \<Rightarrow> string" where
  "show_nat n = (if n < 10 then [char_of (48 + n)] else show_nat (n div 10) @ [char_of (48 + n mod 10)])"

declare show_nat.simps [simp del]

fun group3 :: "string \<Rightarrow> string" where
  "group3 (a # b # c # d # ds) = a # b # c # CHR '','' # group3 (d # ds)"
| "group3 ds = ds"

text \<open>\<open>"${:,}".format(n)\<close>\<close>

definition format_price :: "int \<Rightarrow> string" where
  "format_price n =
     CHR ''$'' # (if n < 0 then [CHR ''-''] else []) @ rev (group3 (rev (show_nat \<bar>n\<bar>)))"

section \<open>Parameter extraction (extract_template_params)\<close>

type_synonym params = "(string \<times> string) list"

text \<open>
  A dict is an association list in insertion order; \<open>d[k] = v\<close> is \<open>AList.update k v d\<close>,
  which replaces the value of a key in place and appends a new key.
\<close>

definition has_key :: "string \<Rightarrow> params \<Rightarrow> bool" where
  "has_key k d = (map_of d k \<noteq> None)"

definition image_ext :: rx where
  "image_ext = alts [''jpg'', ''jpeg'', ''png'', ''gif'', ''webp'']"

definition non_space :: "char \<Rightarrow> bool" where
  "non_space c = (\<not> is_space c)"

definition rx_image_url :: rx where
  "rx_image_url = Grp (seqs [Lit ''http'', Opt (Lit ''s''), Lit ''://'', Plus non_space, Lit ''.'', Grp image_ext])"

definition rx_www_image :: rx where
  "rx_www_image = Grp (seqs [Lit ''www.'', Plus non_space, Lit ''.'', Grp image_ext])"

definition rx_www_any :: rx where
  "rx_www_any = Grp (seqs [Lit ''www.'', Plus non_space, Lit ''.'', Plus is_word])"

definition image_url_params :: "string \<Rightarrow> params" where
  "image_url_params text =
     (let params =
        (case re_search True rx_image_url text of
           None \<Rightarrow>
             (case re_search True rx_www_image text of
                Some (g0, gs) \<Rightarrow> AList.update ''image_url'' (''https://'' @ g0) []
              | None \<Rightarrow> [])
         | Some (g0, gs) \<Rightarrow> AList.update ''image_url'' g0 [])
      in if \<not> has_key ''image_url'' params then
           (case re_search True rx_www_any text of
              Some (g0, gs) \<Rightarrow> AList.update ''image_url'' (''https://'' @ g0) params
            | None \<Rightarrow> params)
         else params)"

definition price_chars :: "char \<Rightarrow> bool" where
  "price_chars c = (is_digit c \<or> c = CHR '','' \<or> c = CHR ''.'')"

definition rx_price_modification :: rx where
  "rx_price_modification = seqs
     [alts [''modify'', ''change'', ''update'', ''set'', ''make''], Opt (Seq (Plus is_space) (Lit ''the'')),
      Plus is_space, Lit ''price'', Plus is_space, alts [''to'', ''as'', ''be''], Plus is_space,
      Opt (Lit ''$''), Grp (Plus price_chars)]"

definition rx_dollar_price :: rx where
  "rx_dollar_price = Seq (Lit ''$'') (Grp (Plus price_chars))"

definition rx_worded_price :: rx where
  "rx_worded_price = seqs
     [alts [''price'', ''cost'', ''value''], Star (\<lambda>c. \<not> is_digit c),
      Grp (Seq (Cls is_digit) (Plus price_chars))]"

text \<open>
  The \<open>try\<close> block of the price rules: the formatted value, the raw match after a
  ValueError; any other exception of the conversion is not caught.
\<close>

definition set_price :: "string \<Rightarrow> params \<Rightarrow> py_error + params" where
  "set_price raw params =
     (case py_int_float (filter (\<lambda>c. c \<noteq> CHR '','') raw) of
        Inr price_value \<Rightarrow> Inr (AList.update ''property_price'' (format_price price_value) params)
      | Inl ValueError \<Rightarrow> Inr (AList.update ''property_price'' (CHR ''$'' # raw) params)
      | Inl e \<Rightarrow> Inl e)"

definition price_params :: "string \<Rightarrow> params \<Rightarrow> py_error + params" where
  "price_params text params =
     (case re_search True rx_price_modification text of
        Some (g0, gs) \<Rightarrow> set_price (group1 gs) params
      | None \<Rightarrow>
         (case (case re_search False rx_dollar_price text of
                  None \<Rightarrow> re_search True rx_worded_price text
                | Some m \<Rightarrow> Some m) of
            Some (g0, gs) \<Rightarrow> set_price (group1 gs) params
          | None \<Rightarrow> Inr params))"

definition element_chars :: "char \<Rightarrow> bool" where
  "element_chars c = (is_word c \<or> is_space c \<or> c = CHR ''-'')"

definition color_chars :: "char \<Rightarrow> bool" where
  "color_chars c = (c = CHR ''#'' \<or> is_word c \<or> c = CHR ''('' \<or> c = CHR '')'' \<or> c = CHR '','' \<or>
     c = CHR ''.'' \<or> c = CHR '' '')"

definition rx_text_should_be :: rx where
  "rx_text_should_be = seqs
     [Grp (Plus element_chars), Lit '' text should be '', Lit [CHR 0x22],
      Grp (Plus (\<lambda>c. c \<noteq> CHR 0x22)), Lit [CHR 0x22]]"

definition rx_color_should_be :: rx where
  "rx_color_should_be = seqs
     [Grp (Plus element_chars), Lit '' color should be '', Grp (Plus color_chars)]"

definition text_field :: "string \<Rightarrow> string option" where
  "text_field element_key =
     (if element_key = ''modern'' then Some ''modern_text''
      else if element_key = ''home'' then Some ''home_text''
      else if element_key = ''for sale'' then Some ''for_sale_text''
      else if element_key = ''start from'' then Some ''start_from_text''
      else if element_key = ''cta'' \<or> element_key = ''buy now'' then Some ''cta_text''
      else if element_key = ''website'' then Some ''website_text''
      else None)"

definition color_field :: "string \<Rightarrow> string option" where
  "color_field element_key =
     (if element_key = ''modern'' then Some ''modern_color''
      else if element_key = ''home'' then Some ''home_color''
      else if element_key = ''for sale'' then Some ''for_sale_color''
      else if element_key = ''start from'' then Some ''start_from_color''
      else if element_key = ''price'' then Some ''price_color''
      else if element_key = ''cta'' \<or> element_key = ''buy now'' then Some ''cta_color''
      else if element_key = ''website'' then Some ''website_color''
      else None)"

text \<open>The bodies of the two loops over the matches \<open>(element, content)\<close> and \<open>(element, color)\<close>.\<close>

definition text_step :: "params \<Rightarrow> string list \<Rightarrow> params" where
  "text_step params m =
     (case m of
        [element, content] \<Rightarrow>
          (case text_field (lower (strip element)) of
             Some k \<Rightarrow> AList.update k content params
           | None \<Rightarrow> params)
      | _ \<Rightarrow> params)"

definition color_step :: "params \<Rightarrow> string list \<Rightarrow> params" where
  "color_step params m =
     (case m of
        [element, color] \<Rightarrow>
          (case color_field (lower (strip element)) of
             Some k \<Rightarrow> AList.update k (strip color) params
           | None \<Rightarrow> params)
      | _ \<Rightarrow> params)"

definition color_adjectives :: "(string \<times> string) list" where
  "color_adjectives =
     [(''yellow'', ''#FFD700''), (''red'', ''#FF0000''), (''blue'', ''#0000FF''), (''green'', ''#00FF00''),
      (''black'', ''#000000''), (''white'', ''#FFFFFF''), (''purple'', ''#800080''),
      (''orange'', ''#FFA500''), (''pink'', ''#FFC0CB''), (''brown'', ''#A52A2A''), (''gray'', ''#808080''),
      (''gold'', ''#FFD700'')]"

text \<open>\<open>if b: params[k] = v\<close>\<close>

definition set_if :: "bool \<Rightarrow> string \<Rightarrow> string \<Rightarrow> params \<Rightarrow> params" where
  "set_if b k v params = (if b then AList.update k v params else params)"

text \<open>The body of the loop over \<open>color_adjectives.items()\<close>: six \<open>if\<close>s in a row.\<close>

definition adjective_step :: "string \<Rightarrow> params \<Rightarrow> string \<times> string \<Rightarrow> params" where
  "adjective_step text params ec =
     (let element = fst ec; color = snd ec; low = lower text
      in (set_if (contains (element @ '' website'') low) ''website_color'' color \<circ>
          set_if (contains (element @ '' price'') low) ''price_color'' color \<circ>
          set_if (contains (element @ '' for sale'') low) ''for_sale_color'' color \<circ>
          set_if (contains (element @ '' home'') low) ''home_color'' color \<circ>
          set_if (contains (element @ '' modern'') low) ''modern_color'' color \<circ>
          set_if (contains (element @ '' buy now'') low \<or> contains (element @ '' button'') low)
            ''cta_color'' color) params)"

definition template1_params :: "string \<Rightarrow> params \<Rightarrow> py_error + params" where
  "template1_params text params =
     (case price_params text params of
        Inl e \<Rightarrow> Inl e
      | Inr p1 \<Rightarrow>
          (let p2 = foldl text_step p1 (re_findall False rx_text_should_be text);
               p3 = foldl color_step p2 (re_findall False rx_color_should_be text)
           in Inr (foldl (adjective_step text) p3 color_adjectives)))"

text \<open>
  Templates 2 and 3 have one pattern per field: \<open>if re.search(p, text): params[k] =
  re.search(p, text).group(1)\<close>, stripped for the colours.
\<close>

definition quote :: "char \<Rightarrow> bool" where
  "quote c = (c = CHR 0x22 \<or> c = CHR 0x27)"

definition rx_field_text :: "string \<Rightarrow> rx" where
  "rx_field_text name = seqs
     [Lit name, Plus is_space, Lit ''text'', Plus is_space, Cls quote,
      Grp (Plus (\<lambda>c. \<not> quote c)), Cls quote]"

definition rx_field_color :: "string \<Rightarrow> rx" where
  "rx_field_color name = seqs
     [Lit name, Plus is_space, Lit ''color'', Plus is_space, Grp (Plus color_chars)]"

definition set_text :: "string \<Rightarrow> string \<Rightarrow> string \<Rightarrow> params \<Rightarrow> params" where
  "set_text name k text params =
     (case re_search True (rx_field_text name) text of
        Some (g0, gs) \<Rightarrow> AList.update k (group1 gs) params
      | None \<Rightarrow> params)"

definition set_color :: "string \<Rightarrow> string \<Rightarrow> string \<Rightarrow> params \<Rightarrow> params" where
  "set_color name k text params =
     (case re_search True (rx_field_color name) text of
        Some (g0, gs) \<Rightarrow> AList.update k (strip (group1 gs)) params
      | None \<Rightarrow> params)"

definition template2_params :: "string \<Rightarrow> params \<Rightarrow> params" where
  "template2_params text =
     set_color ''contact info'' ''text_1_copy_copy_copy_color'' text \<circ>
     set_color ''info header'' ''text_1_copy_copy_color'' text \<circ>
     set_color ''tagline'' ''text_1_copy_color'' text \<circ>
     set_color ''main text'' ''text_1_color'' text \<circ>
     set_text ''contact info'' ''contact_info_text'' text \<circ>
     set_text ''info header'' ''info_header_text'' text \<circ>
     set_text ''tagline'' ''tagline_text'' text \<circ>
     set_text ''house agent'' ''house_agent_text'' text"

definition rx_secondary_image :: rx where
  "rx_secondary_image = seqs
     [Lit ''secondary image'', Plus is_space, Grp (Cls is_digit), Plus is_space,
      Grp (seqs [Lit ''http'', Opt (Lit ''s''), Lit ''://'', Plus non_space, Lit ''.'', Plus is_word])]"

definition secondary_step :: "params \<Rightarrow> string list \<Rightarrow> params" where
  "secondary_step params m =
     (case m of
        [img_num, img_url] \<Rightarrow>
          (if img_num = ''1'' then AList.update ''secondary_image_url1'' img_url params
           else if img_num = ''2'' then AList.update ''secondary_image_url2'' img_url params
           else if img_num = ''3'' then AList.update ''secondary_image_url3'' img_url params
           else params)
      | _ \<Rightarrow> params)"

definition template3_params :: "string \<Rightarrow> params \<Rightarrow> params" where
  "template3_params text params =
     (set_color ''website'' ''template3_website_color'' text \<circ>
      set_color ''info'' ''info_color'' text \<circ>
      set_color ''button'' ''cta_color'' text \<circ>
      set_color ''second title'' ''title_2_color'' text \<circ>
      set_color ''main title'' ''title_1_color'' text \<circ>
      set_text ''website'' ''template3_website_text'' text \<circ>
      set_text ''info'' ''info_text'' text \<circ>
      set_text ''button'' ''cta_button_text'' text \<circ>
      set_text ''second title'' ''title_2_text'' text \<circ>
      set_text ''main title'' ''title_1_text'' text)
       (foldl secondary_step params (re_findall True rx_secondary_image text))"

definition extract_template_params :: "string \<Rightarrow> int \<Rightarrow> py_error + params" where
  "extract_template_params text template_version =
     (let params = image_url_params text
      in if template_version = 1 then template1_params text params
         else if template_version = 2 then Inr (template2_params text params)
         else if template_version = 3 then Inr (template3_params text params)
         else Inr params)"

section \<open>Session state (AgentState)\<close>

datatype role = Human | AI | System

type_synonym message = "role \<times> string"

record agent_state =
  messages :: "message list"
  status :: string
  template_params :: "params option"
  generation_result :: "params option"
  template_version :: int
  force_generation :: bool

abbreviation COLLECTING_INFO :: string where
  "COLLECTING_INFO \<equiv> ''COLLECTING_INFO''"

abbreviation READY_TO_GENERATE :: string where
  "READY_TO_GENERATE \<equiv> ''READY_TO_GENERATE''"

abbreviation TEMPLATE_GENERATED :: string where
  "TEMPLATE_GENERATED \<equiv> ''TEMPLATE_GENERATED''"

definition get_initial_state :: agent_state where
  "get_initial_state =
     \<lparr>messages = [(System, ''You are a helpful real estate poster design assistant. '' @
          ''You help users create customized real estate poster templates. '' @
          ''You can create posters using three different templates. '' @
          ''You will ask for details about their real estate listing and '' @
          ''help them customize the poster design.'')],
      status = ''WAITING_FOR_USER'', template_params = None, generation_result = None,
      template_version = 1, force_generation = False\<rparr>"

section \<open>Turn processor (user_turn)\<close>

definition rx_direct_price :: rx where
  "rx_direct_price = seqs
     [alts [''modify'', ''change'', ''update'', ''set'', ''make''], Opt (Seq (Plus is_space) (Lit ''the'')),
      Plus is_space, Lit ''price'', Plus is_space, Opt (alts [''to'', ''as'', ''be'']), Plus is_space,
      Opt (Lit ''$''), Grp (Plus price_chars)]"

text \<open>
  The direct price modification of \<open>user_turn\<close>: whether the phrase matched, and the
  extracted parameters with the price it gives; a ValueError of the conversion is passed
  over, any other exception is not caught.
\<close>

definition direct_price :: "string \<Rightarrow> int \<Rightarrow> params \<Rightarrow> py_error + (bool \<times> params)" where
  "direct_price content version extracted_params =
     (if version = 1 then
        (case re_search True rx_direct_price content of
           Some (g0, gs) \<Rightarrow>
             (case py_int_float (filter (\<lambda>c. c \<noteq> CHR '','') (group1 gs)) of
                Inr price_value \<Rightarrow>
                  Inr (True, AList.update ''property_price'' (format_price price_value) extracted_params)
              | Inl ValueError \<Rightarrow> Inr (True, extracted_params)
              | Inl e \<Rightarrow> Inl e)
         | None \<Rightarrow> Inr (False, extracted_params))
      else Inr (False, extracted_params))"

text \<open>\<open>d.update(other)\<close>\<close>

definition dict_update :: "params \<Rightarrow> params \<Rightarrow> params" where
  "dict_update d other = foldl (\<lambda>d kv. AList.update (fst kv) (snd kv) d) d other"

definition params_changed :: "params \<Rightarrow> params \<Rightarrow> bool" where
  "params_changed previous_params extracted_params =
     list_ex (\<lambda>kv. case map_of previous_params (fst kv) of None \<Rightarrow> False | Some v \<Rightarrow> v \<noteq> snd kv)
       extracted_params"

definition regeneration_keywords :: "string list" where
  "regeneration_keywords =
     [''regenerate'', ''generate'', ''create'', ''update'', ''change'', ''modify'', ''make'', ''yes'',
      ''proceed'', ''go ahead'', ''do it'', ''new'']"

definition url_keywords :: "string list" where
  "url_keywords =
     [''url'', ''link'', ''generated'', ''show me'', ''view'', ''preview'', ''see'', ''poster'', ''provide'']"

definition any_keyword :: "string list \<Rightarrow> string \<Rightarrow> bool" where
  "any_keyword keywords content = list_ex (\<lambda>keyword. contains keyword (lower content)) keywords"

text \<open>The template switch at the head of \<open>user_turn\<close>.\<close>

definition switch_template :: "int \<Rightarrow> agent_state \<Rightarrow> agent_state" where
  "switch_template template_preference s =
     (if template_preference \<noteq> template_version s
      then s\<lparr>template_version := template_preference, template_params := Some [],
             status := COLLECTING_INFO\<rparr>
      else s)"

text \<open>The condition of the \<open>if\<close> that forces regeneration and clears the last result.\<close>

definition force_condition :: "bool \<Rightarrow> bool \<Rightarrow> bool \<Rightarrow> bool \<Rightarrow> string \<Rightarrow> bool" where
  "force_condition is_regeneration_request is_url_request changed price_modification st =
     (((is_regeneration_request \<or> is_url_request) \<and> changed) \<or>
      (changed \<and> (st = READY_TO_GENERATE \<or> st = TEMPLATE_GENERATED)) \<or>
      price_modification)"

text \<open>The final status update, with its second way of setting the flag.\<close>

definition update_status :: "bool \<Rightarrow> bool \<Rightarrow> agent_state \<Rightarrow> agent_state" where
  "update_status is_regeneration_request price_modification s =
     (let p = (case template_params s of None \<Rightarrow> [] | Some p \<Rightarrow> p)
      in if template_version s = 1 then
           (if has_key ''image_url'' p \<and> has_key ''property_price'' p then
              (let s' = s\<lparr>status := READY_TO_GENERATE\<rparr>
               in if is_regeneration_request \<or> price_modification
                  then s'\<lparr>force_generation := True\<rparr> else s')
            else s)
         else if template_version s = 2 \<or> template_version s = 3 then
           (if has_key ''image_url'' p then
              (let s' = s\<lparr>status := READY_TO_GENERATE\<rparr>
               in if is_regeneration_request then s'\<lparr>force_generation := True\<rparr> else s')
            else s)
         else
           (if has_key ''image_url'' p then s\<lparr>status := READY_TO_GENERATE\<rparr> else s))"

text \<open>The merge of the extracted parameters and the first way of setting the flag.\<close>

definition merge_and_force :: "agent_state \<Rightarrow> string \<Rightarrow> bool \<Rightarrow> params \<Rightarrow> agent_state" where
  "merge_and_force s1 content price_modification extracted_params =
     (let previous_params = (case template_params s1 of None \<Rightarrow> [] | Some p \<Rightarrow> p);
          s2 = s1\<lparr>template_params :=
                 (case template_params s1 of
                    None \<Rightarrow> Some extracted_params
                  | Some p \<Rightarrow> Some (dict_update p extracted_params))\<rparr>
      in if force_condition (any_keyword regeneration_keywords content) (any_keyword url_keywords content)
              (params_changed previous_params extracted_params) price_modification (status s2)
         then s2\<lparr>force_generation := True, generation_result := None\<rparr>
         else s2)"

definition user_turn :: "agent_state \<Rightarrow> py_error + agent_state" where
  "user_turn s =
     (let human_messages = filter (\<lambda>m. fst m = Human) (messages s)
      in if human_messages = [] then Inr s
         else
           let content = snd (last human_messages);
               s1 = switch_template (extract_template_preference content) s
           in case extract_template_params content (template_version s1) of
                Inl e \<Rightarrow> Inl e
              | Inr extracted \<Rightarrow>
                 (case direct_price content (template_version s1) extracted of
                    Inl e \<Rightarrow> Inl e
                  | Inr (price_modification, extracted_params) \<Rightarrow>
                      Inr (update_status (any_keyword regeneration_keywords content) price_modification
                             (merge_and_force s1 content price_modification extracted_params))))"

section \<open>Requirement checker (check_requirements)\<close>

definition required_params :: "int \<Rightarrow> string list" where
  "required_params version = (if version = 1 then [''image_url'', ''property_price''] else [''image_url''])"

definition check_requirements :: "agent_state \<Rightarrow> agent_state" where
  "check_requirements s =
     (case template_params s of
        None \<Rightarrow> s\<lparr>status := COLLECTING_INFO\<rparr>
      | Some p \<Rightarrow>
          if force_generation s then s\<lparr>status := READY_TO_GENERATE\<rparr>
          else
            let missing_params = filter (\<lambda>param. \<not> has_key param p) (required_params (template_version s))
            in if missing_params \<noteq> [] then s\<lparr>status := COLLECTING_INFO\<rparr>
               else s\<lparr>status := READY_TO_GENERATE\<rparr>)"

section \<open>Template generator (generate_template)\<close>

text \<open>
  The poster tool is a parameter: \<open>render version params\<close> is the result dict of
  \<open>generate_real_estate_poster.invoke\<close> on the copied parameters with the template version
  added, or \<open>Inl\<close> the text of the exception it raised. \<open>.copy()\<close> on a missing
  (\<open>None\<close>) parameter dict raises AttributeError before anything else happens.
\<close>

type_synonym renderer = "int \<Rightarrow> params \<Rightarrow> string + params"

definition missing_image_note :: string where
  "missing_image_note =
     ''Error: Missing image URL. Please provide a URL to an image before generating the template.''"

definition image_required_note :: string where
  "image_required_note =
     ''Error: An image URL is required. Please provide a URL to an image of the property.''"

definition render_error_note :: "string \<Rightarrow> string" where
  "render_error_note error_message =
     (if contains ''validation error'' error_message \<and> contains ''image_url'' error_message
      then image_required_note
      else ''Error generating template: '' @ error_message)"

definition generate_template :: "renderer \<Rightarrow> agent_state \<Rightarrow> py_error + agent_state" where
  "generate_template render s =
     (case template_params s of
        None \<Rightarrow> Inl AttributeError
      | Some p \<Rightarrow>
          if map_of p ''image_url'' = None \<or> map_of p ''image_url'' = Some []
          then Inr (s\<lparr>messages := messages s @ [(System, missing_image_note)],
                      status := COLLECTING_INFO\<rparr>)
          else
            (case render (template_version s) p of
               Inr result \<Rightarrow> Inr (s\<lparr>generation_result := Some result, status := TEMPLATE_GENERATED\<rparr>)
             | Inl error_message \<Rightarrow>
                 Inr (s\<lparr>messages := messages s @ [(System, render_error_note error_message)],
                       status := COLLECTING_INFO\<rparr>)))"

section \<open>The graph of one turn (create_agent_graph)\<close>

text \<open>
  The reply composer calls a language model: \<open>llm s\<close> is its reply, or the exception of
  the call.
\<close>

definition ai_turn :: "(agent_state \<Rightarrow> py_error + string) \<Rightarrow> agent_state \<Rightarrow> py_error + agent_state" where
  "ai_turn llm s =
     (case llm s of
        Inl e \<Rightarrow> Inl e
      | Inr ai_response \<Rightarrow> Inr (s\<lparr>messages := messages s @ [(AI, ai_response)]\<rparr>))"

definition route_generate :: "agent_state \<Rightarrow> bool" where
  "route_generate s = (status s = READY_TO_GENERATE \<or> force_generation s)"

definition agent_invoke ::
  "renderer \<Rightarrow> (agent_state \<Rightarrow> py_error + string) \<Rightarrow> agent_state \<Rightarrow> py_error + agent_state" where
  "agent_invoke render llm s =
     (case user_turn s of
        Inl e \<Rightarrow> Inl e
      | Inr s1 \<Rightarrow>
          (let s2 = check_requirements s1
           in case (if route_generate s2 then generate_template render s2 else Inr s2) of
                Inl e \<Rightarrow> Inl e
              | Inr s3 \<Rightarrow> ai_turn llm s3))"

text \<open>A chat: each user message is appended to the history and the graph is run on it.\<close>

fun run_turns :: "renderer \<Rightarrow> (agent_state \<Rightarrow> py_error + string) \<Rightarrow> string list \<Rightarrow> agent_state \<Rightarrow>
    py_error + agent_state" where
  "run_turns render llm [] s = Inr s"
| "run_turns render llm (content # rest) s =
     (case agent_invoke render llm (s\<lparr>messages := messages s @ [(Human, content)]\<rparr>) of
        Inl e \<Rightarrow> Inl e
      | Inr s' \<Rightarrow> run_turns render llm rest s')"

section \<open>Notions of the specification and sample sessions\<close>

text \<open>The required parameters of the active template are all present.\<close>

definition params_ready :: "agent_state \<Rightarrow> bool" where
  "params_ready s =
     list_all (\<lambda>k. has_key k (case template_params s of None \<Rightarrow> [] | Some p \<Rightarrow> p))
       (required_params (template_version s))"

text \<open>The mock answer of the renderer with placeholder keys, a failing renderer, a fixed reply.\<close>

definition mock_render :: renderer where
  "mock_render version p = Inr [(''url'', ''https://example.com/poster-preview.jpg'')]"

definition failing_render :: renderer where
  "failing_render version p = Inl ''Render request failed. Response code: 500''"

definition fixed_reply :: "agent_state \<Rightarrow> py_error + string" where
  "fixed_reply s = Inr ''ok''"

text \<open>A template-1 session after a poster was generated, with one more user message.\<close>

definition generated_state :: "string \<Rightarrow> agent_state" where
  "generated_state content =
     \<lparr>messages = [(Human, content)], status = TEMPLATE_GENERATED,
      template_params = Some [(''image_url'', ''https://www.a.com/b.png''), (''property_price'', ''$5'')],
      generation_result = Some [(''url'', ''https://example.com/poster-preview.jpg'')],
      template_version = 1, force_generation = False\<rparr>"

text \<open>A session right after a template switch: no parameters, the flag set.\<close>

definition forced_empty_state :: agent_state where
  "forced_empty_state =
     \<lparr>messages = [], status = COLLECTING_INFO, template_params = Some [], generation_result = None,
      template_version = 2, force_generation = True\<rparr>"

definition collecting_state :: "params \<Rightarrow> agent_state" where
  "collecting_state p =
     \<lparr>messages = [], status = COLLECTING_INFO, template_params = Some p, generation_result = None,
      template_version = 1, force_generation = False\<rparr>"

text \<open>
  The element keywords behind each colour field of the adjective rule, and the adjectives
  of the table, in its order, that stand right before one of the keywords in the text.
\<close>

definition adjective_keywords :: "(string \<times> string list) list" where
  "adjective_keywords =
     [(''cta_color'', [''buy now'', ''button'']), (''modern_color'', [''modern'']),
      (''home_color'', [''home'']), (''for_sale_color'', [''for sale'']),
      (''price_color'', [''price'']), (''website_color'', [''website''])]"

definition adjective_hit :: "string \<Rightarrow> string list \<Rightarrow> string \<times> string \<Rightarrow> bool" where
  "adjective_hit text kws ec = list_ex (\<lambda>kw. contains (fst ec @ '' '' @ kw) (lower text)) kws"

definition adjective_hits :: "string \<Rightarrow> string list \<Rightarrow> (string \<times> string) list" where
  "adjective_hits text kws = filter (adjective_hit text kws) color_adjectives"

text \<open>The customizable elements of each template, as \<open>get_templates\<close> lists them.\<close>

definition customizable_elements :: "int \<Rightarrow> string list" where
  "customizable_elements template_id =
     (if template_id = 1 then
        [''image_url'', ''property_price'', ''modern_text'', ''home_text'', ''for_sale_text'',
         ''start_from_text'', ''cta_text'', ''website_text'', ''modern_color'', ''home_color'',
         ''for_sale_color'', ''start_from_color'', ''price_color'', ''cta_color'', ''website_color'']
      else if template_id = 2 then
        [''image_url'', ''house_agent_text'', ''tagline_text'', ''info_header_text'',
         ''contact_info_text'', ''text_1_color'', ''text_1_copy_color'', ''text_1_copy_copy_color'',
         ''text_1_copy_copy_copy_color'']
      else if template_id = 3 then
        [''image_url'', ''secondary_image_url1'', ''secondary_image_url2'', ''secondary_image_url3'',
         ''title_1_text'', ''title_2_text'', ''cta_button_text'', ''info_text'',
         ''template3_website_text'', ''title_1_color'', ''title_2_color'', ''info_color'',
         ''template3_website_color'']
      else [])"

definition keys :: "params \<Rightarrow> string set" where
  "keys p = fst ` set p"

text \<open>The keys the extraction can give for a template.\<close>

definition extracted_keys :: "int \<Rightarrow> string set" where
  "extracted_keys v = set (customizable_elements v) \<union> (if v = 3 then {''cta_color''} else {})"

text \<open>The parameters of a session, when present, hold such keys only.\<close>

definition params_valid :: "agent_state \<Rightarrow> bool" where
  "params_valid s =
     (case template_params s of None \<Rightarrow> True | Some p \<Rightarrow> keys p \<subseteq> extracted_keys (template_version s))"

text \<open>A price of 310 digits, beyond the range of a double.\<close>

definition overflow_price_text :: string where
  "overflow_price_text = CHR ''$'' # CHR ''1'' # replicate 309 (CHR ''0'')"

subsection \<open>The image URL rules, written without patterns\<close>

text \<open>
  The three rules of the image URL as functions on the characters of the text, with no
  pattern in them, to be compared with what the extraction of the source gives.
  A rule is tried at every position of the text from the left; at a position it needs its
  prefix in any letter case, at least one non-blank character after it, and then, within
  the same run of non-blank characters, its ending; of several endings in the run it takes
  the last one, and the URL stops where that ending stops.
\<close>

definition image_extensions :: "string list" where
  "image_extensions = [''jpg'', ''jpeg'', ''png'', ''gif'', ''webp'']"

text \<open>The ending of rules (a) and (b): a dot and an image extension, in any letter case.\<close>

definition ext_here :: "string \<Rightarrow> string option" where
  "ext_here r =
     (case filter (\<lambda>e. starts_with (CHR ''.'' # e) (lower r)) image_extensions of
        [] \<Rightarrow> None
      | e # _ \<Rightarrow> Some (take (Suc (length e)) r))"

text \<open>The ending of rule (c): a dot and the word characters after it, at least one.\<close>

definition word_here :: "string \<Rightarrow> string option" where
  "word_here r =
     (case r of
        [] \<Rightarrow> None
      | c # ws \<Rightarrow>
          if c = CHR ''.'' \<and> takeWhile is_word ws \<noteq> [] then Some (c # takeWhile is_word ws) else None)"

text \<open>
  The run of non-blank characters up to the last place in it where the ending stands,
  with that ending.
\<close>

fun longest_stretch :: "(string \<Rightarrow> string option) \<Rightarrow> string \<Rightarrow> string option" where
  "longest_stretch ending [] = ending []"
| "longest_stretch ending (c # cs) =
     (if is_space c then ending (c # cs)
      else (case longest_stretch ending cs of Some m \<Rightarrow> Some (c # m) | None \<Rightarrow> ending (c # cs)))"

text \<open>A non-blank character and then such a stretch.\<close>

definition body_here :: "(string \<Rightarrow> string option) \<Rightarrow> string \<Rightarrow> string option" where
  "body_here e x =
     (case x of [] \<Rightarrow> None
      | c # cs \<Rightarrow> if is_space c then None else map_option ((#) c) (longest_stretch e cs))"

text \<open>The same after a prefix of \<open>n\<close> characters, the prefix kept as the text has it.\<close>

definition url_from :: "nat \<Rightarrow> (string \<Rightarrow> string option) \<Rightarrow> string \<Rightarrow> string option" where
  "url_from n ending r =
     (case drop n r of
        [] \<Rightarrow> None
      | c # cs \<Rightarrow>
          if is_space c then None
          else map_option (\<lambda>m. take n r @ c # m) (longest_stretch ending cs))"

definition absolute_url_here :: "string \<Rightarrow> string option" where
  "absolute_url_here r =
     (if starts_with ''https://'' (lower r) then url_from 8 ext_here r
      else if starts_with ''http://'' (lower r) then url_from 7 ext_here r
      else None)"

definition www_image_here :: "string \<Rightarrow> string option" where
  "www_image_here r = (if starts_with ''www.'' (lower r) then url_from 4 ext_here r else None)"

definition www_any_here :: "string \<Rightarrow> string option" where
  "www_any_here r = (if starts_with ''www.'' (lower r) then url_from 4 word_here r else None)"

text \<open>The result of a rule at the leftmost position where it has one.\<close>

fun leftmost :: "(string \<Rightarrow> 'a option) \<Rightarrow> string \<Rightarrow> 'a option" where
  "leftmost f [] = f []"
| "leftmost f (c # cs) = (case f (c # cs) of Some m \<Rightarrow> Some m | None \<Rightarrow> leftmost f cs)"

text \<open>
  The rules in their order, the first that matches: rule (a) gives the URL as found,
  rules (b) and (c) put \<open>https://\<close> before it.
\<close>

definition image_url_rule :: "string \<Rightarrow> string option" where
  "image_url_rule text =
     (case leftmost absolute_url_here text of
        Some u \<Rightarrow> Some u
      | None \<Rightarrow>
         (case leftmost www_image_here text of
            Some u \<Rightarrow> Some (''https://'' @ u)
          | None \<Rightarrow>
             (case leftmost www_any_here text of
                Some u \<Rightarrow> Some (''https://'' @ u)
              | None \<Rightarrow> None)))"

subsection \<open>The first way of matching\<close>

text \<open>
  The first element of a list, the inputs left over by the ways a pattern matches, and the
  text matched by the first of them, which is group 0 of \<open>re.search\<close> at that position.
\<close>

definition first_of :: "'a list \<Rightarrow> 'a option" where
  "first_of xs = (case xs of [] \<Rightarrow> None | x # _ \<Rightarrow> Some x)"

definition rests :: "bool \<Rightarrow> rx \<Rightarrow> string \<Rightarrow> string list" where
  "rests ic r inp = map snd (rx_match ic r inp)"

definition match_here :: "bool \<Rightarrow> rx \<Rightarrow> string \<Rightarrow> string option" where
  "match_here ic r inp =
     map_option (\<lambda>rest. take (length inp - length rest) inp) (first_of (rests ic r inp))"

text \<open>
  A function computes a pattern when, on every input, it gives the text that the first
  way of matching consumes, and nothing when the pattern does not match.
\<close>

definition computes :: "bool \<Rightarrow> rx \<Rightarrow> (string \<Rightarrow> string option) \<Rightarrow> bool" where
  "computes ic r f \<longleftrightarrow>
     (\<forall>inp. first_of (rests ic r inp) = map_option (\<lambda>m. drop (length m) inp) (f inp) \<and>
        (\<forall>m. f inp = Some m \<longrightarrow> take (length m) inp = m \<and> length m \<le> length inp))"

section \<open>The matcher\<close>

lemma re_search_Nil: "re_search ic r [] = (case rx_match ic r [] of [] \<Rightarrow> None | (g, rest) # _ \<Rightarrow> Some ([], g))"
  by (simp add: re_search.simps split: list.splits)

lemma re_search_hit:
  "rx_match ic r inp = (g, rest) # ms \<Longrightarrow> re_search ic r inp = Some (take (length inp - length rest) inp, g)"
  by (simp add: re_search.simps)

lemma re_search_miss:
  "rx_match ic r (c # cs) = [] \<Longrightarrow> re_search ic r (c # cs) = re_search ic r cs"
  by (simp add: re_search.simps)

lemma re_search_None_iff:
  "re_search ic r t = None \<longleftrightarrow> (\<forall>u inp. t = u @ inp \<longrightarrow> rx_match ic r inp = [])"
proof (induction t)
  case Nil
  show ?case by (auto simp: re_search.simps split: list.splits)
next
  case (Cons c cs)
  show ?case
  proof (cases "rx_match ic r (c # cs)")
    case Nil
    have "(\<forall>u inp. c # cs = u @ inp \<longrightarrow> rx_match ic r inp = []) \<longleftrightarrow>
        (\<forall>u inp. cs = u @ inp \<longrightarrow> rx_match ic r inp = [])"
      using Nil by (auto simp: Cons_eq_append_conv)
    then show ?thesis using Nil Cons.IH by (simp add: re_search_miss)
  next
    case (Cons x xs)
    then have "re_search ic r (c # cs) \<noteq> None"
      by (cases x) (simp add: re_search_hit)
    moreover have "\<not> (\<forall>u inp. c # cs = u @ inp \<longrightarrow> rx_match ic r inp = [])"
      using Cons by (auto intro: exI [of _ "[]"])
    ultimately show ?thesis by blast
  qed
qed

lemma re_search_Some:
  "re_search ic r t = Some (g0, g) \<Longrightarrow>
   \<exists>u inp rest. t = u @ inp \<and> (g, rest) \<in> set (rx_match ic r inp) \<and>
      g0 = take (length inp - length rest) inp"
proof (induction t)
  case Nil
  then show ?case by (auto simp: re_search.simps split: list.splits)
next
  case (Cons c cs)
  show ?case
  proof (cases "rx_match ic r (c # cs)")
    case Nil
    with Cons.prems have "re_search ic r cs = Some (g0, g)" by (simp add: re_search_miss)
    from Cons.IH [OF this] obtain u inp rest where "cs = u @ inp" "(g, rest) \<in> set (rx_match ic r inp)"
      "g0 = take (length inp - length rest) inp" by blast
    then have "c # cs = (c # u) @ inp \<and> (g, rest) \<in> set (rx_match ic r inp) \<and>
      g0 = take (length inp - length rest) inp" by simp
    then show ?thesis by blast
  next
    case (Cons x xs)
    obtain g' rest where x: "x = (g', rest)" by (cases x)
    from Cons.prems Cons x have "g0 = take (length (c # cs) - length rest) (c # cs)" "g = g'"
      by (simp_all add: re_search_hit)
    with Cons x have "c # cs = [] @ (c # cs) \<and> (g, rest) \<in> set (rx_match ic r (c # cs)) \<and>
      g0 = take (length (c # cs) - length rest) (c # cs)" by simp
    then show ?thesis by blast
  qed
qed

text \<open>Membership in the matches of each construct.\<close>

lemma star_rests_iff: "r \<in> set (star_rests p inp) \<longleftrightarrow> (\<exists>w. inp = w @ r \<and> list_all p w)"
proof (induction inp)
  case Nil
  show ?case by auto
next
  case (Cons c cs)
  show ?case
  proof (cases "p c")
    case True
    have "(\<exists>w. c # cs = w @ r \<and> list_all p w) \<longleftrightarrow> r = c # cs \<or> (\<exists>w. cs = w @ r \<and> list_all p w)"
      using True by (auto simp: Cons_eq_append_conv)
    then show ?thesis using True Cons.IH by auto
  next
    case False
    have "(\<exists>w. c # cs = w @ r \<and> list_all p w) \<longleftrightarrow> r = c # cs"
      using False by (auto simp: Cons_eq_append_conv)
    then show ?thesis using False by auto
  qed
qed


lemma match_Seq:
  "(g, r) \<in> set (rx_match ic (Seq a b) inp) \<longleftrightarrow>
   (\<exists>g1 r1 g2. (g1, r1) \<in> set (rx_match ic a inp) \<and> (g2, r) \<in> set (rx_match ic b r1) \<and> g = g1 @ g2)"
  by (auto simp: image_iff) force

lemma match_Alt:
  "(g, r) \<in> set (rx_match ic (Alt a b) inp) \<longleftrightarrow>
   (g, r) \<in> set (rx_match ic a inp) \<or> (g, r) \<in> set (rx_match ic b inp)"
  by simp


lemma match_Plus:
  "(g, r) \<in> set (rx_match ic (Plus p) inp) \<longleftrightarrow> g = [] \<and> (\<exists>w. w \<noteq> [] \<and> inp = w @ r \<and> list_all p w)"
proof (cases inp)
  case Nil
  then show ?thesis by auto
next
  case (Cons c cs)
  have "(\<exists>w. w \<noteq> [] \<and> c # cs = w @ r \<and> list_all p w) \<longleftrightarrow> p c \<and> (\<exists>w. cs = w @ r \<and> list_all p w)"
    by (auto simp: Cons_eq_append_conv)
  then show ?thesis using Cons by (auto simp: star_rests_iff image_iff)
qed

lemma match_Star:
  "(g, r) \<in> set (rx_match ic (Star p) inp) \<longleftrightarrow> g = [] \<and> (\<exists>w. inp = w @ r \<and> list_all p w)"
  by (auto simp: star_rests_iff image_iff)

lemma match_suffix: "(g, r) \<in> set (rx_match ic a inp) \<Longrightarrow> \<exists>w. inp = w @ r"
proof (induction a arbitrary: g r inp)
  case (Lit s)
  then have "inp = take (length s) inp @ r" by auto
  then show ?case by blast
next
  case (Cls p)
  then show ?case by (auto split: list.splits if_splits)
next
  case (Star p)
  then show ?case by (auto simp: star_rests_iff)
next
  case (Plus p)
  then show ?case unfolding match_Plus by blast
next
  case (Seq a b)
  from Seq.prems obtain g1 r1 g2 where "(g1, r1) \<in> set (rx_match ic a inp)" "(g2, r) \<in> set (rx_match ic b r1)"
    unfolding match_Seq by blast
  with Seq.IH show ?case by (metis append.assoc)
next
  case (Alt a b)
  then show ?case by auto
next
  case (Opt a)
  then show ?case by auto
next
  case (Grp a)
  then show ?case by auto
qed

section \<open>Characters and substrings\<close>

lemma code_range: "0 \<le> code c \<and> code c < 256"
proof -
  have "code c mod 256 = code c" unfolding code_def by (rule of_char_mod_256)
  moreover have "0 \<le> code c mod 256" "code c mod 256 < 256" by simp_all
  ultimately show ?thesis by simp
qed

lemma code_inject: "code c = code d \<Longrightarrow> c = d"
  by (simp add: code_def)

lemma lower_chr_changed:
  assumes "lower_chr c \<noteq> c"
  shows "(97 \<le> code (lower_chr c) \<and> code (lower_chr c) \<le> 122) \<or>
         (224 \<le> code (lower_chr c) \<and> code (lower_chr c) \<le> 254)"
proof -
  from assms have u: "(65 \<le> code c \<and> code c \<le> 90) \<or> (192 \<le> code c \<and> code c \<le> 222 \<and> code c \<noteq> 215)"
    and l: "lower_chr c = char_of (code c + 32)"
    by (auto simp: lower_chr_def Let_def split: if_splits)
  have "code (lower_chr c) = (code c + 32) mod 256"
    unfolding l by (simp add: code_def)
  also have "\<dots> = code c + 32" using u by auto
  finally show ?thesis using u by auto
qed

lemma lower_chr_fixed:
  "lower_chr c = x \<Longrightarrow> code x < 97 \<or> (122 < code x \<and> code x < 224) \<or> 254 < code x \<Longrightarrow> c = x"
  using lower_chr_changed [of c] by fastforce

lemma starts_with_iff: "starts_with sub s \<longleftrightarrow> (\<exists>y. s = sub @ y)"
  by (induction sub s rule: starts_with.induct) auto


lemma lit_match_iff:
  "lit_match ic s inp \<longleftrightarrow> length s \<le> length inp \<and>
     (if ic then lower (take (length s) inp) = lower s else take (length s) inp = s)"
  by (induction ic s inp rule: lit_match.induct) (auto simp: lower_def)

lemma lit_match_lower:
  "lit_match True s inp \<Longrightarrow> lower s = s \<Longrightarrow> \<exists>y. lower inp = s @ y"
proof -
  assume a: "lit_match True s inp" and s: "lower s = s"
  have "lower inp = lower (take (length s) inp) @ lower (drop (length s) inp)"
    unfolding lower_def by (simp add: map_append [symmetric] del: map_append)
  with a s show ?thesis by (auto simp: lit_match_iff)
qed




section \<open>The template patterns\<close>

lemma alts_match:
  "(g, r) \<in> set (rx_match ic (alts ss) inp) \<longleftrightarrow>
   g = [] \<and> (\<exists>s\<in>set ss. lit_match ic s inp \<and> r = drop (length s) inp)"
  by (induction ss rule: alts.induct) auto














section \<open>The colour adjectives\<close>

lemma map_of_set_if:
  "map_of (set_if b k v al) k' = (if b \<and> k' = k then Some v else map_of al k')"
  by (simp add: set_if_def update_conv')

lemma adjective_step_fields:
  "map_of (adjective_step text q ec) ''cta_color'' =
     (if adjective_hit text [''buy now'', ''button''] ec then Some (snd ec) else map_of q ''cta_color'')"
  "map_of (adjective_step text q ec) ''modern_color'' =
     (if adjective_hit text [''modern''] ec then Some (snd ec) else map_of q ''modern_color'')"
  "map_of (adjective_step text q ec) ''home_color'' =
     (if adjective_hit text [''home''] ec then Some (snd ec) else map_of q ''home_color'')"
  "map_of (adjective_step text q ec) ''for_sale_color'' =
     (if adjective_hit text [''for sale''] ec then Some (snd ec) else map_of q ''for_sale_color'')"
  "map_of (adjective_step text q ec) ''price_color'' =
     (if adjective_hit text [''price''] ec then Some (snd ec) else map_of q ''price_color'')"
  "map_of (adjective_step text q ec) ''website_color'' =
     (if adjective_hit text [''website''] ec then Some (snd ec) else map_of q ''website_color'')"
  by (simp_all add: adjective_step_def adjective_hit_def Let_def map_of_set_if)

lemma adjective_step_field:
  assumes "(key, kws) \<in> set adjective_keywords"
  shows "map_of (adjective_step text q ec) key =
     (if adjective_hit text kws ec then Some (snd ec) else map_of q key)"
proof -
  from assms have "(key, kws) = (''cta_color'', [''buy now'', ''button'']) \<or>
      (key, kws) = (''modern_color'', [''modern'']) \<or> (key, kws) = (''home_color'', [''home'']) \<or>
      (key, kws) = (''for_sale_color'', [''for sale'']) \<or> (key, kws) = (''price_color'', [''price'']) \<or>
      (key, kws) = (''website_color'', [''website''])"
    unfolding adjective_keywords_def by (simp only: set_simps insert_iff empty_iff simp_thms)
  then show ?thesis
    by (elim disjE) (simp_all only: prod.inject adjective_step_fields)
qed

lemma adjective_fold_field:
  assumes "(key, kws) \<in> set adjective_keywords"
  shows "map_of (foldl (adjective_step text) q xs) key =
     (case filter (adjective_hit text kws) xs of
        [] \<Rightarrow> map_of q key
      | y # ys \<Rightarrow> Some (snd (last (y # ys))))"
proof (induction xs arbitrary: q)
  case Nil
  show ?case by simp
next
  case (Cons x xs)
  show ?case
    by (cases "filter (adjective_hit text kws) xs")
       (simp_all add: Cons.IH adjective_step_field [OF assms])
qed

section \<open>Properties of the session steps\<close>

lemma switch_template_fields [simp]:
  "force_generation (switch_template t s) = force_generation s"
  "generation_result (switch_template t s) = generation_result s"
  "messages (switch_template t s) = messages s"
  by (simp_all add: switch_template_def)

lemma update_status_force:
  "template_version s \<in> {1, 2, 3} \<Longrightarrow> pm \<longrightarrow> template_version s = 1 \<Longrightarrow>
   force_generation (update_status r pm s) = (force_generation s \<or> (params_ready s \<and> (r \<or> pm)))"
  by (auto simp: update_status_def params_ready_def required_params_def Let_def)

lemma update_status_force_mono:
  "force_generation s \<Longrightarrow> force_generation (update_status r pm s)"
  by (auto simp: update_status_def Let_def)

lemma update_status_fields [simp]:
  "generation_result (update_status r pm s) = generation_result s"
  "template_params (update_status r pm s) = template_params s"
  "template_version (update_status r pm s) = template_version s"
  "messages (update_status r pm s) = messages s"
  by (auto simp: update_status_def Let_def)

lemma merge_and_force_fields:
  "force_generation (merge_and_force s1 content pm ex) =
     (force_generation s1 \<or> force_condition (any_keyword regeneration_keywords content)
        (any_keyword url_keywords content)
        (params_changed (case template_params s1 of None \<Rightarrow> [] | Some p \<Rightarrow> p) ex) pm (status s1))"
  "generation_result (merge_and_force s1 content pm ex) =
     (if force_condition (any_keyword regeneration_keywords content)
        (any_keyword url_keywords content)
        (params_changed (case template_params s1 of None \<Rightarrow> [] | Some p \<Rightarrow> p) ex) pm (status s1)
      then None else generation_result s1)"
  "template_version (merge_and_force s1 content pm ex) = template_version s1"
  by (simp_all add: merge_and_force_def Let_def)

lemma user_turn_unfold:
  assumes "filter (\<lambda>m. fst m = Human) (messages s) \<noteq> []"
    and "content = snd (last (filter (\<lambda>m. fst m = Human) (messages s)))"
    and "s1 = switch_template (extract_template_preference content) s"
  shows "user_turn s =
     (case extract_template_params content (template_version s1) of
        Inl e \<Rightarrow> Inl e
      | Inr extracted \<Rightarrow>
         (case direct_price content (template_version s1) extracted of
            Inl e \<Rightarrow> Inl e
          | Inr (price_modification, extracted_params) \<Rightarrow>
              Inr (update_status (any_keyword regeneration_keywords content) price_modification
                     (merge_and_force s1 content price_modification extracted_params))))"
  unfolding user_turn_def Let_def assms(2,3) using assms(1)
  by (simp only: if_False)

lemma user_turn_force_mono:
  assumes f: "force_generation s" and u: "user_turn s = Inr s'"
  shows "force_generation s'"
proof (cases "filter (\<lambda>m. fst m = Human) (messages s) = []")
  case True
  with u have "s' = s" by (simp add: user_turn_def)
  with f show ?thesis by simp
next
  case False
  define content where "content = snd (last (filter (\<lambda>m. fst m = Human) (messages s)))"
  define s1 where "s1 = switch_template (extract_template_preference content) s"
  note un = user_turn_unfold [OF False content_def s1_def]
  from u un obtain extracted where ex: "extract_template_params content (template_version s1) = Inr extracted"
    by (cases "extract_template_params content (template_version s1)") auto
  from u un ex obtain pm ex' where dp: "direct_price content (template_version s1) extracted = Inr (pm, ex')"
    by (cases "direct_price content (template_version s1) extracted") auto
  from u un ex dp have s': "s' = update_status (any_keyword regeneration_keywords content) pm
      (merge_and_force s1 content pm ex')" by simp
  have "force_generation (merge_and_force s1 content pm ex')"
    using f by (simp add: merge_and_force_fields s1_def)
  then show ?thesis unfolding s' by (rule update_status_force_mono)
qed

lemma check_requirements_force [simp]:
  "force_generation (check_requirements s) = force_generation s"
  by (simp add: check_requirements_def Let_def split: option.split)

lemma generate_template_force:
  "generate_template render s = Inr s' \<Longrightarrow> force_generation s' = force_generation s"
  by (auto simp: generate_template_def split: option.splits if_splits sum.splits)

lemma ai_turn_force:
  "ai_turn llm s = Inr s' \<Longrightarrow> force_generation s' = force_generation s"
  by (auto simp: ai_turn_def split: sum.splits)

lemma extract_template_preference_range:
  "extract_template_preference text \<in> {1, 2, 3}"
  by (auto simp: extract_template_preference_def template_num_def Let_def split: option.splits)

lemma switch_template_version:
  "template_version (switch_template (extract_template_preference text) s) = extract_template_preference text"
  by (simp add: switch_template_def)

lemma direct_price_version:
  "direct_price content v ex = Inr (pm, ex') \<Longrightarrow> pm \<Longrightarrow> v = 1"
  by (auto simp: direct_price_def split: if_splits)

subsection \<open>Keys of the extracted parameters\<close>

lemma keys_update: "keys (AList.update k v p) = insert k (keys p)"
  by (simp add: keys_def dom_update)

lemma keys_set_if: "keys (set_if b k v p) \<subseteq> insert k (keys p)"
  by (auto simp: set_if_def keys_update)

lemma keys_image_url_params: "keys (image_url_params text) \<subseteq> {''image_url''}"
  by (auto simp: image_url_params_def Let_def keys_update keys_def split: option.splits)

lemma keys_set_price: "set_price raw p = Inr p' \<Longrightarrow> keys p' \<subseteq> insert ''property_price'' (keys p)"
  by (auto simp: set_price_def keys_update split: sum.splits py_error.splits)

lemma keys_price_params: "price_params text p = Inr p' \<Longrightarrow> keys p' \<subseteq> insert ''property_price'' (keys p)"
  by (auto simp: price_params_def split: option.splits dest!: keys_set_price)

lemma keys_foldl:
  assumes "\<And>q x. keys (f q x) \<subseteq> keys q \<union> K"
  shows "keys (foldl f p xs) \<subseteq> keys p \<union> K"
proof (induction xs arbitrary: p)
  case Nil
  show ?case by simp
next
  case (Cons x xs)
  have "keys (foldl f (f p x) xs) \<subseteq> keys (f p x) \<union> K" by (rule Cons.IH)
  also have "\<dots> \<subseteq> keys p \<union> K" using assms [of p x] by blast
  finally show ?case by simp
qed

lemma keys_text_step:
  "keys (text_step q m) \<subseteq> keys q \<union>
     {''modern_text'', ''home_text'', ''for_sale_text'', ''start_from_text'', ''cta_text'', ''website_text''}"
  by (auto simp: text_step_def text_field_def keys_update split: list.splits option.splits if_splits)

lemma keys_color_step:
  "keys (color_step q m) \<subseteq> keys q \<union>
     {''modern_color'', ''home_color'', ''for_sale_color'', ''start_from_color'', ''price_color'',
      ''cta_color'', ''website_color''}"
  by (auto simp: color_step_def color_field_def keys_update split: list.splits option.splits if_splits)

lemma keys_adjective_step:
  "keys (adjective_step text q ec) \<subseteq> keys q \<union>
     {''modern_color'', ''home_color'', ''for_sale_color'', ''price_color'', ''cta_color'', ''website_color''}"
  unfolding adjective_step_def Let_def comp_def
  by (intro subset_trans [OF keys_set_if] insert_subsetI) auto

lemma subset_chain4:
  "X4 \<subseteq> X3 \<union> A \<Longrightarrow> X3 \<subseteq> X2 \<union> B \<Longrightarrow> X2 \<subseteq> X1 \<union> D \<Longrightarrow> X1 \<subseteq> insert e X0 \<Longrightarrow>
   A \<subseteq> C \<Longrightarrow> B \<subseteq> C \<Longrightarrow> D \<subseteq> C \<Longrightarrow> e \<in> C \<Longrightarrow> X4 \<subseteq> X0 \<union> C"
  by blast

lemma keys_template1_params:
  assumes "template1_params text p = Inr p'"
  shows "keys p' \<subseteq> keys p \<union> set (customizable_elements 1)"
proof -
  from assms obtain p1 where p1: "price_params text p = Inr p1"
    and p': "p' = foldl (adjective_step text)
        (foldl color_step (foldl text_step p1 (re_findall False rx_text_should_be text))
           (re_findall False rx_color_should_be text)) color_adjectives"
    by (auto simp: template1_params_def Let_def split: sum.splits)
  show ?thesis
    unfolding p'
  proof (rule subset_chain4 [OF keys_foldl [of "adjective_step text", OF keys_adjective_step]
        keys_foldl [of color_step, OF keys_color_step]
        keys_foldl [of text_step, OF keys_text_step] keys_price_params [OF p1]])
  qed (simp_all add: customizable_elements_def)
qed

lemma keys_set_text: "keys (set_text name k text p) \<subseteq> insert k (keys p)"
  by (auto simp: set_text_def keys_update split: option.splits)

lemma keys_set_color: "keys (set_color name k text p) \<subseteq> insert k (keys p)"
  by (auto simp: set_color_def keys_update split: option.splits)

lemma keys_template2_params: "keys (template2_params text p) \<subseteq> keys p \<union> set (customizable_elements 2)"
  unfolding template2_params_def comp_def customizable_elements_def
  by (intro subset_trans [OF keys_set_text] subset_trans [OF keys_set_color] insert_subsetI)
     (simp_all add: subset_insertI2)

lemma keys_secondary_step:
  "keys (secondary_step q m) \<subseteq> keys q \<union>
     {''secondary_image_url1'', ''secondary_image_url2'', ''secondary_image_url3''}"
  by (auto simp: secondary_step_def keys_update split: list.splits if_splits)

lemma subset_chain2:
  "X2 \<subseteq> X1 \<union> A \<Longrightarrow> X1 \<subseteq> X0 \<union> B \<Longrightarrow> A \<subseteq> C \<Longrightarrow> B \<subseteq> C \<Longrightarrow> X2 \<subseteq> X0 \<union> C"
  by blast

lemma keys_template3_fields:
  "keys (template3_params text p) \<subseteq>
     keys (foldl secondary_step p (re_findall True rx_secondary_image text)) \<union> extracted_keys 3"
  unfolding template3_params_def comp_def customizable_elements_def extracted_keys_def
  by (intro subset_trans [OF keys_set_text] subset_trans [OF keys_set_color] insert_subsetI)
     (simp_all add: subset_insertI2)

lemma keys_template3_params: "keys (template3_params text p) \<subseteq> keys p \<union> extracted_keys 3"
  by (rule subset_chain2 [OF keys_template3_fields keys_foldl [of secondary_step, OF keys_secondary_step]])
     (simp_all add: extracted_keys_def customizable_elements_def)

lemma extract_template_params_keys:
  assumes "v \<in> {1, 2, 3}" and "extract_template_params text v = Inr p"
  shows "keys p \<subseteq> extracted_keys v"
proof -
  have i: "keys (image_url_params text) \<subseteq> {''image_url''}" by (rule keys_image_url_params)
  from assms consider (one) "v = 1" "template1_params text (image_url_params text) = Inr p"
    | (two) "v = 2" "p = template2_params text (image_url_params text)"
    | (three) "v = 3" "p = template3_params text (image_url_params text)"
    by (auto simp: extract_template_params_def Let_def split: if_splits)
  then show ?thesis
  proof cases
    case one
    have "keys p \<subseteq> {''image_url''} \<union> set (customizable_elements 1)"
      using keys_template1_params [OF one(2)] i by blast
    also have "\<dots> \<subseteq> extracted_keys 1"
      by (simp add: extracted_keys_def customizable_elements_def)
    finally show ?thesis by (simp only: one(1))
  next
    case two
    have "keys p \<subseteq> {''image_url''} \<union> set (customizable_elements 2)"
      using keys_template2_params [of "text" "image_url_params text"] i unfolding two(2) by blast
    also have "\<dots> \<subseteq> extracted_keys 2"
      by (simp add: extracted_keys_def customizable_elements_def)
    finally show ?thesis by (simp only: two(1))
  next
    case three
    have "keys p \<subseteq> {''image_url''} \<union> extracted_keys 3"
      using keys_template3_params [of "text" "image_url_params text"] i unfolding three(2) by blast
    also have "\<dots> \<subseteq> extracted_keys 3"
      by (simp add: extracted_keys_def customizable_elements_def)
    finally show ?thesis by (simp only: three(1))
  qed
qed

lemma keys_dict_update: "keys (dict_update p other) = keys p \<union> keys other"
proof -
  have "keys (foldl (\<lambda>d kv. AList.update (fst kv) (snd kv) d) p other) = keys p \<union> fst ` set other"
    by (induction other arbitrary: p) (simp_all add: keys_update)
  then show ?thesis by (simp add: dict_update_def keys_def)
qed

lemma keys_direct_price:
  "direct_price content v ex = Inr (pm, ex') \<Longrightarrow>
   keys ex' \<subseteq> keys ex \<or> (v = 1 \<and> keys ex' \<subseteq> insert ''property_price'' (keys ex))"
  by (auto simp: direct_price_def keys_update split: if_splits option.splits sum.splits py_error.splits)

lemma price_key: "''property_price'' \<in> extracted_keys 1"
  by (simp add: extracted_keys_def customizable_elements_def)

lemma user_turn_params_valid:
  assumes inv: "params_valid s" and u: "user_turn s = Inr s'"
  shows "params_valid s'"
proof (cases "filter (\<lambda>m. fst m = Human) (messages s) = []")
  case True
  with u have "s' = s" by (simp add: user_turn_def)
  with inv show ?thesis by simp
next
  case False
  define content where "content = snd (last (filter (\<lambda>m. fst m = Human) (messages s)))"
  define s1 where "s1 = switch_template (extract_template_preference content) s"
  note un = user_turn_unfold [OF False content_def s1_def]
  from u un obtain extracted where ex: "extract_template_params content (template_version s1) = Inr extracted"
    by (cases "extract_template_params content (template_version s1)") auto
  from u un ex obtain pm ex' where dp: "direct_price content (template_version s1) extracted = Inr (pm, ex')"
    by (cases "direct_price content (template_version s1) extracted") auto
  from u un ex dp have s': "s' = update_status (any_keyword regeneration_keywords content) pm
      (merge_and_force s1 content pm ex')" by simp
  have v: "template_version s1 \<in> {1, 2, 3}"
    unfolding s1_def switch_template_version by (rule extract_template_preference_range)
  have inv1: "params_valid s1"
    using inv by (simp add: s1_def switch_template_def params_valid_def keys_def)
  have k: "keys extracted \<subseteq> extracted_keys (template_version s1)"
    using v ex by (rule extract_template_params_keys)
  have k': "keys ex' \<subseteq> extracted_keys (template_version s1)"
    using keys_direct_price [OF dp] k price_key by auto
  have "params_valid (merge_and_force s1 content pm ex')"
    using inv1 k'
    by (simp add: merge_and_force_def Let_def params_valid_def keys_dict_update split: option.splits)
  then show ?thesis
    unfolding s' by (simp add: params_valid_def split: option.splits)
qed

subsection \<open>The image URL through the later steps\<close>

lemma map_of_update_other: "k \<noteq> k' \<Longrightarrow> map_of (AList.update k v p) k' = map_of p k'"
  by (simp add: update_conv')

lemma int_of_float_ratio_errors: "int_of_float_ratio n d = Inl e \<Longrightarrow> e = OverflowError"
  unfolding int_of_float_ratio_def Let_def
  by (simp only: sum.inject sum.distinct split: if_splits)

lemma py_int_float_errors: "py_int_float s = Inl e \<Longrightarrow> e = ValueError \<or> e = OverflowError"
  unfolding py_int_float_def Let_def
  by (auto simp only: sum.inject dest: int_of_float_ratio_errors split: if_splits)

lemma image_set_price:
  "case set_price raw p of Inl e \<Rightarrow> e = OverflowError | Inr p' \<Rightarrow> map_of p' ''image_url'' = map_of p ''image_url''"
proof (cases "py_int_float (filter (\<lambda>c. c \<noteq> CHR '','') raw)")
  case (Inl e)
  with py_int_float_errors [OF Inl] show ?thesis
    by (auto simp: set_price_def map_of_update_other)
next
  case (Inr n)
  then show ?thesis by (simp add: set_price_def map_of_update_other)
qed

lemma image_price_params:
  "case price_params t p of Inl e \<Rightarrow> e = OverflowError
   | Inr p' \<Rightarrow> map_of p' ''image_url'' = map_of p ''image_url''"
  unfolding price_params_def using image_set_price
  by (auto split: option.splits)

lemma image_foldl:
  assumes "\<And>q x. map_of (f q x) ''image_url'' = map_of q ''image_url''"
  shows "map_of (foldl f p xs) ''image_url'' = map_of p ''image_url''"
  by (induction xs arbitrary: p) (simp_all add: assms)

lemma text_field_not_image: "text_field e = Some k \<Longrightarrow> k \<noteq> ''image_url''"
  by (auto simp: text_field_def split: if_splits)

lemma color_field_not_image: "color_field e = Some k \<Longrightarrow> k \<noteq> ''image_url''"
  by (auto simp: color_field_def split: if_splits)

lemma image_text_step: "map_of (text_step q m) ''image_url'' = map_of q ''image_url''"
  by (auto simp: text_step_def map_of_update_other dest: text_field_not_image split: list.splits option.splits)

lemma image_color_step: "map_of (color_step q m) ''image_url'' = map_of q ''image_url''"
  by (auto simp: color_step_def map_of_update_other dest: color_field_not_image split: list.splits option.splits)

lemma image_adjective_step: "map_of (adjective_step text q ec) ''image_url'' = map_of q ''image_url''"
  by (simp add: adjective_step_def Let_def map_of_set_if)

lemma image_set_text: "k \<noteq> ''image_url'' \<Longrightarrow> map_of (set_text name k text p) ''image_url'' = map_of p ''image_url''"
  by (simp add: set_text_def map_of_update_other split: option.splits)

lemma image_set_color: "k \<noteq> ''image_url'' \<Longrightarrow> map_of (set_color name k text p) ''image_url'' = map_of p ''image_url''"
  by (simp add: set_color_def map_of_update_other split: option.splits)

lemma image_secondary_step: "map_of (secondary_step q m) ''image_url'' = map_of q ''image_url''"
  by (simp add: secondary_step_def map_of_update_other split: list.splits)

lemma image_template1:
  "case template1_params t p of Inl e \<Rightarrow> e = OverflowError
   | Inr p' \<Rightarrow> map_of p' ''image_url'' = map_of p ''image_url''"
  using image_price_params [where t = t and p = p]
  by (auto simp: template1_params_def Let_def image_foldl image_text_step image_color_step
      image_adjective_step split: sum.splits)

lemma image_template2: "map_of (template2_params text p) ''image_url'' = map_of p ''image_url''"
  by (simp add: template2_params_def image_set_text image_set_color)

lemma image_template3: "map_of (template3_params text p) ''image_url'' = map_of p ''image_url''"
  by (simp add: template3_params_def image_set_text image_set_color image_foldl image_secondary_step)

lemma image_url_cascade:
  "map_of (image_url_params text) ''image_url'' =
     (case re_search True rx_image_url text of
        Some (g0, gs) \<Rightarrow> Some g0
      | None \<Rightarrow>
         (case re_search True rx_www_image text of
            Some (g0, gs) \<Rightarrow> Some (''https://'' @ g0)
          | None \<Rightarrow>
             (case re_search True rx_www_any text of
                Some (g0, gs) \<Rightarrow> Some (''https://'' @ g0)
              | None \<Rightarrow> None)))"
  by (simp add: image_url_params_def has_key_def Let_def split: option.splits)

lemma re_search_substring:
  assumes "re_search ic r t = Some (g0, g)"
  shows "\<exists>u rest. t = u @ g0 @ rest"
proof -
  from re_search_Some [OF assms] obtain u inp rest where t: "t = u @ inp"
    and m: "(g, rest) \<in> set (rx_match ic r inp)" and g0: "g0 = take (length inp - length rest) inp" by blast
  from match_suffix [OF m] obtain w where "inp = w @ rest" ..
  with g0 have "g0 = w" by simp
  with t \<open>inp = w @ rest\<close> show ?thesis by blast
qed

subsection \<open>A price beyond the range of a double\<close>

lemma star_rests_all: "list_all p xs \<Longrightarrow> \<exists>ys. star_rests p xs = [] # ys"
  by (induction xs) auto

lemma int_of_digits_zeros:
  "foldl (\<lambda>a c. 10 * a + (code c - 48)) a (replicate n (CHR ''0'')) = a * 10 ^ n"
  by (induction n arbitrary: a) (simp_all add: code_def)

lemma price_modification_first:
  assumes "(g, r) \<in> set (rx_match True rx_price_modification inp)"
  shows "\<exists>c cs. inp = c # cs \<and> lower_chr c \<in> {CHR ''m'', CHR ''c'', CHR ''u'', CHR ''s''}"
proof -
  from assms obtain g1 r1 where "(g1, r1) \<in> set (rx_match True
      (alts [''modify'', ''change'', ''update'', ''set'', ''make'']) inp)"
    unfolding rx_price_modification_def seqs.simps match_Seq by blast
  then obtain s where s: "s \<in> set [''modify'', ''change'', ''update'', ''set'', ''make'']"
    and l: "lit_match True s inp"
    unfolding alts_match by blast
  from s l show ?thesis
    by (cases inp) (auto simp: lower_chr_def code_def)
qed

lemma digits_no_modification:
  "re_search True rx_price_modification (CHR ''$'' # CHR ''1'' # replicate n (CHR ''0'')) = None"
  unfolding re_search_None_iff
proof (intro allI impI)
  fix u inp
  assume t: "CHR ''$'' # CHR ''1'' # replicate n (CHR ''0'') = u @ inp"
  show "rx_match True rx_price_modification inp = []"
  proof (rule ccontr)
    assume "rx_match True rx_price_modification inp \<noteq> []"
    then obtain g r where "(g, r) \<in> set (rx_match True rx_price_modification inp)"
      by (cases "rx_match True rx_price_modification inp") auto
    from price_modification_first [OF this] obtain c cs where inp: "inp = c # cs"
      and c: "lower_chr c \<in> {CHR ''m'', CHR ''c'', CHR ''u'', CHR ''s''}" by blast
    have "c \<in> set (CHR ''$'' # CHR ''1'' # replicate n (CHR ''0''))" unfolding t inp by simp
    then have "c \<in> {CHR ''$'', CHR ''1'', CHR ''0''}" by auto
    with c show False by (auto simp: lower_chr_def code_def)
  qed
qed

lemma digits_dollar:
  "re_search False rx_dollar_price (CHR ''$'' # CHR ''1'' # replicate n (CHR ''0'')) =
     Some (CHR ''$'' # CHR ''1'' # replicate n (CHR ''0''), [CHR ''1'' # replicate n (CHR ''0'')])"
proof -
  have "list_all price_chars (replicate n (CHR ''0''))"
    by (simp add: list_all_iff price_chars_def is_digit_def code_def)
  from star_rests_all [OF this] obtain ys where ys: "star_rests price_chars (replicate n (CHR ''0'')) = [] # ys" ..
  have p1: "price_chars (CHR ''1'')" by (simp add: price_chars_def is_digit_def code_def)
  have "\<exists>ms. rx_match False rx_dollar_price (CHR ''$'' # CHR ''1'' # replicate n (CHR ''0'')) =
      ([CHR ''1'' # replicate n (CHR ''0'')], []) # ms"
    unfolding rx_dollar_price_def by (simp add: ys p1)
  then obtain ms where "rx_match False rx_dollar_price (CHR ''$'' # CHR ''1'' # replicate n (CHR ''0'')) =
      ([CHR ''1'' # replicate n (CHR ''0'')], []) # ms" ..
  from re_search_hit [OF this] show ?thesis by simp
qed

lemma digits_conversion:
  "py_int_float (CHR ''1'' # replicate n (CHR ''0'')) = int_of_float_ratio (10 ^ n) 1"
proof -
  let ?ds = "CHR ''1'' # replicate n (CHR ''0'')"
  have nd: "\<forall>c\<in>set ?ds. c \<noteq> CHR ''.'' \<and> is_digit c" by (auto simp: is_digit_def code_def)
  then have tw: "takeWhile (\<lambda>c. c \<noteq> CHR ''.'') ?ds = ?ds" and dw: "dropWhile (\<lambda>c. c \<noteq> CHR ''.'') ?ds = []"
    by (simp_all only: takeWhile_eq_all_conv dropWhile_eq_Nil_conv) blast+
  have la: "list_all is_digit ?ds" using nd by (simp only: list_all_iff) blast
  have v: "int_of_digits ?ds = 10 ^ n"
    unfolding int_of_digits_def foldl_Cons int_of_digits_zeros by (simp add: code_def)
  show ?thesis
    unfolding py_int_float_def Let_def tw dw using la v by simp
qed

lemma digits_price:
  "extract_template_params (CHR ''$'' # CHR ''1'' # replicate n (CHR ''0'')) 1 = Inl OverflowError"
  if "int_of_float_ratio (10 ^ n) 1 = Inl OverflowError"
proof -
  have f: "filter (\<lambda>c. c \<noteq> CHR '','') (CHR ''1'' # replicate n (CHR ''0'')) = CHR ''1'' # replicate n (CHR ''0'')"
    by (simp only: filter_id_conv) auto
  have "price_params (CHR ''$'' # CHR ''1'' # replicate n (CHR ''0'')) p = Inl OverflowError" for p
    unfolding price_params_def digits_no_modification digits_dollar
    by (simp add: set_price_def group1_def f digits_conversion that)
  then show ?thesis
    by (simp add: extract_template_params_def template1_params_def)
qed

section \<open>The image URL rules and the patterns\<close>

subsection \<open>The first way of matching a pattern\<close>

lemma first_of_simps [simp]:
  "first_of [] = None" "first_of (x # xs) = Some x"
  by (simp_all add: first_of_def)

lemma first_of_append:
  "first_of (xs @ ys) = (case first_of xs of Some x \<Rightarrow> Some x | None \<Rightarrow> first_of ys)"
  by (cases xs) simp_all

lemma first_of_map: "first_of (map f xs) = map_option f (first_of xs)"
  by (cases xs) simp_all

lemma rests_Lit: "rests ic (Lit s) inp = (if lit_match ic s inp then [drop (length s) inp] else [])"
  by (simp add: rests_def)

lemma rests_Opt: "rests ic (Opt a) inp = rests ic a inp @ [inp]"
  by (simp add: rests_def)

lemma rests_Alt: "rests ic (Alt a b) inp = rests ic a inp @ rests ic b inp"
  by (simp add: rests_def)

lemma rests_Grp: "rests ic (Grp a) inp = rests ic a inp"
  by (simp add: rests_def comp_def case_prod_beta)

lemma rests_Seq: "rests ic (Seq a b) inp = concat (map (rests ic b) (rests ic a inp))"
  by (simp add: rests_def map_concat comp_def case_prod_beta)

lemma rests_Plus:
  "rests ic (Plus p) inp = (case inp of [] \<Rightarrow> [] | c # cs \<Rightarrow> if p c then star_rests p cs else [])"
  by (simp add: rests_def comp_def split: list.splits)

lemma rests_alts:
  "rests ic (alts ss) inp = map (\<lambda>s. drop (length s) inp) (filter (\<lambda>s. lit_match ic s inp) ss)"
  by (induction ss rule: alts.induct) (simp_all add: rests_Alt rests_Lit, simp add: rests_def split: list.splits)

lemma star_rests_first: "first_of (star_rests p xs) = Some (dropWhile p xs)"
  by (induction xs) (simp_all add: first_of_append)

lemma search_leftmost: "map_option fst (re_search ic r t) = leftmost (match_here ic r) t"
proof (induction t)
  case Nil
  show ?case
    by (cases "rx_match ic r []") (auto simp: re_search.simps match_here_def rests_def)
next
  case (Cons c cs)
  show ?case
  proof (cases "rx_match ic r (c # cs)")
    case Nil
    then show ?thesis
      using Cons.IH by (simp add: re_search_miss match_here_def rests_def)
  next
    case (Cons x xs)
    obtain g rest where x: "x = (g, rest)" by (cases x)
    show ?thesis
      using Cons x by (simp add: re_search_hit match_here_def rests_def)
  qed
qed

subsection \<open>Patterns computed by functions\<close>

lemma computesI:
  assumes "\<And>inp. first_of (rests ic r inp) = map_option (\<lambda>m. drop (length m) inp) (f inp)"
    and "\<And>inp m. f inp = Some m \<Longrightarrow> take (length m) inp = m \<and> length m \<le> length inp"
  shows "computes ic r f"
  using assms unfolding computes_def by blast

lemma computes_first:
  "computes ic r f \<Longrightarrow> first_of (rests ic r inp) = map_option (\<lambda>m. drop (length m) inp) (f inp)"
  unfolding computes_def by blast

lemma computes_prefix:
  "computes ic r f \<Longrightarrow> f inp = Some m \<Longrightarrow> take (length m) inp = m \<and> length m \<le> length inp"
  unfolding computes_def by blast

lemma computes_match_here:
  assumes "computes ic r f"
  shows "match_here ic r inp = f inp"
proof (cases "f inp")
  case None
  then show ?thesis
    using computes_first [OF assms, of inp] by (simp add: match_here_def)
next
  case (Some m)
  from computes_prefix [OF assms Some] have "take (length m) inp = m" "length m \<le> length inp" by blast+
  then show ?thesis
    using computes_first [OF assms, of inp] Some by (simp add: match_here_def)
qed

lemma computes_Grp: "computes ic r f \<Longrightarrow> computes ic (Grp r) f"
  unfolding computes_def rests_Grp .

lemma computes_eq: "computes ic r f \<Longrightarrow> (\<And>x. f x = g x) \<Longrightarrow> computes ic r g"
  unfolding computes_def by simp

lemma computes_append:
  assumes "\<And>inp. rests ic r inp = rests ic r1 inp @ rests ic r2 inp"
    and "computes ic r1 f1" and "computes ic r2 f2"
  shows "computes ic r (\<lambda>inp. case f1 inp of Some m \<Rightarrow> Some m | None \<Rightarrow> f2 inp)"
proof (rule computesI)
  fix inp
  show "first_of (rests ic r inp) =
      map_option (\<lambda>m. drop (length m) inp) (case f1 inp of Some m \<Rightarrow> Some m | None \<Rightarrow> f2 inp)"
    unfolding assms(1) first_of_append computes_first [OF assms(2)] computes_first [OF assms(3)]
    by (cases "f1 inp") simp_all
next
  fix inp m
  assume "(case f1 inp of Some m \<Rightarrow> Some m | None \<Rightarrow> f2 inp) = Some m"
  then have "f1 inp = Some m \<or> f2 inp = Some m" by (auto split: option.splits)
  with computes_prefix [OF assms(2)] computes_prefix [OF assms(3)]
  show "take (length m) inp = m \<and> length m \<le> length inp" by blast
qed

lemma stretch_first:
  assumes "computes ic t e"
  shows "first_of (concat (map (rests ic t) (star_rests non_space cs))) =
     map_option (\<lambda>m. drop (length m) cs) (longest_stretch e cs)"
proof (induction cs)
  case Nil
  show ?case using computes_first [OF assms, of "[]"] by simp
next
  case (Cons c cs)
  show ?case
  proof (cases "is_space c")
    case True
    then show ?thesis
      using computes_first [OF assms, of "c # cs"] by (simp add: non_space_def)
  next
    case False
    then show ?thesis
      using computes_first [OF assms, of "c # cs"] Cons.IH
      by (cases "longest_stretch e cs") (simp_all add: non_space_def first_of_append)
  qed
qed

lemma stretch_prefix:
  assumes "computes ic t e"
  shows "longest_stretch e cs = Some m \<Longrightarrow> take (length m) cs = m \<and> length m \<le> length cs"
proof (induction cs arbitrary: m)
  case Nil
  then show ?case using computes_prefix [OF assms, of "[]" m] by simp
next
  case (Cons c cs)
  show ?case
  proof (cases "is_space c \<or> longest_stretch e cs = None")
    case True
    with Cons.prems have "e (c # cs) = Some m" by (auto split: if_splits)
    from computes_prefix [OF assms this] show ?thesis .
  next
    case False
    then obtain m' where m': "longest_stretch e cs = Some m'" by auto
    with False Cons.prems have "m = c # m'" by simp
    with Cons.IH [OF m'] show ?thesis by simp
  qed
qed

lemma computes_body:
  assumes "computes ic t e"
  shows "computes ic (Seq (Plus non_space) t) (body_here e)"
proof (rule computesI)
  fix inp
  show "first_of (rests ic (Seq (Plus non_space) t) inp) =
      map_option (\<lambda>m. drop (length m) inp) (body_here e inp)"
  proof (cases inp)
    case Nil
    then show ?thesis by (simp add: rests_Seq rests_Plus body_here_def)
  next
    case (Cons c cs)
    then show ?thesis
      using stretch_first [OF assms, of cs]
      by (cases "longest_stretch e cs")
         (simp_all add: rests_Seq rests_Plus body_here_def non_space_def)
  qed
next
  fix inp m
  assume "body_here e inp = Some m"
  then obtain c cs m' where "inp = c # cs" "m = c # m'" "longest_stretch e cs = Some m'"
    by (auto simp: body_here_def split: list.splits if_splits)
  with stretch_prefix [OF assms, of cs m'] show "take (length m) inp = m \<and> length m \<le> length inp"
    by simp
qed

lemma computes_Lit:
  assumes "computes ic b f"
  shows "computes ic (Seq (Lit s) b)
     (\<lambda>r. if lit_match ic s r then map_option (\<lambda>m. take (length s) r @ m) (f (drop (length s) r)) else None)"
proof (rule computesI)
  fix inp
  show "first_of (rests ic (Seq (Lit s) b) inp) =
      map_option (\<lambda>m. drop (length m) inp)
        (if lit_match ic s inp then map_option (\<lambda>m. take (length s) inp @ m) (f (drop (length s) inp)) else None)"
  proof (cases "lit_match ic s inp")
    case False
    then show ?thesis by (simp add: rests_Seq rests_Lit)
  next
    case True
    then have len: "length s \<le> length inp" by (simp add: lit_match_iff)
    show ?thesis
      using True len computes_first [OF assms, of "drop (length s) inp"]
      by (cases "f (drop (length s) inp)") (simp_all add: rests_Seq rests_Lit add.commute)
  qed
next
  fix inp m
  assume a: "(if lit_match ic s inp then map_option (\<lambda>m. take (length s) inp @ m) (f (drop (length s) inp))
      else None) = Some m"
  then have l: "lit_match ic s inp" by (auto split: if_splits)
  then have len: "length s \<le> length inp" by (simp add: lit_match_iff)
  from a l obtain m' where m': "f (drop (length s) inp) = Some m'" and m: "m = take (length s) inp @ m'"
    by auto
  from computes_prefix [OF assms m'] have p: "take (length m') (drop (length s) inp) = m'"
    and q: "length m' \<le> length inp - length s" by simp_all
  have "take (length m) inp = take (length s) inp @ take (length m') (drop (length s) inp)"
    unfolding m using len by (simp add: take_add min_absorb2)
  with p q len show "take (length m) inp = m \<and> length m \<le> length inp"
    unfolding m by simp
qed

subsection \<open>The endings of the rules\<close>

lemma lit_match_starts:
  assumes "lower s = s"
  shows "lit_match True s r \<longleftrightarrow> starts_with s (lower r)"
proof
  assume "lit_match True s r"
  from lit_match_lower [OF this assms] show "starts_with s (lower r)"
    unfolding starts_with_iff .
next
  assume "starts_with s (lower r)"
  then obtain y where y: "lower r = s @ y" unfolding starts_with_iff ..
  have "length r = length (lower r)" by (simp add: lower_def)
  then have "length s \<le> length r" unfolding y by simp
  moreover have "lower (take (length s) r) = take (length s) (lower r)"
    by (simp add: lower_def take_map)
  ultimately show "lit_match True s r"
    unfolding lit_match_iff using y assms by simp
qed

lemma lit_match_append:
  "lit_match ic (a @ b) r \<longleftrightarrow> lit_match ic a r \<and> lit_match ic b (drop (length a) r)"
proof (induction a arbitrary: r)
  case Nil
  show ?case by simp
next
  case (Cons p ps)
  show ?case by (cases r) (simp_all add: Cons.IH)
qed

lemma lower_extensions: "\<forall>e\<in>set image_extensions. lower (CHR ''.'' # e) = CHR ''.'' # e"
  by (simp add: image_extensions_def lower_def lower_chr_def code_def)

lemma dot_extension:
  assumes "e \<in> set image_extensions"
  shows "starts_with (CHR ''.'' # e) (lower r) \<longleftrightarrow> lit_match True ''.'' r \<and> lit_match True e (drop 1 r)"
proof -
  from assms lower_extensions have "lower (CHR ''.'' # e) = CHR ''.'' # e" by blast
  from lit_match_starts [OF this, of r] lit_match_append [of True "''.''" e r]
  show ?thesis by simp
qed

lemma image_ext_alts: "image_ext = alts image_extensions"
  by (simp add: image_ext_def image_extensions_def)

lemma computes_ext: "computes True (Seq (Lit ''.'') (Grp image_ext)) ext_here"
proof (rule computesI)
  fix inp
  have f: "filter (\<lambda>e. starts_with (CHR ''.'' # e) (lower inp)) image_extensions =
      (if lit_match True ''.'' inp then filter (\<lambda>e. lit_match True e (drop 1 inp)) image_extensions else [])"
    by (auto intro: filter_cong simp: dot_extension filter_empty_conv)
  show "first_of (rests True (Seq (Lit ''.'') (Grp image_ext)) inp) =
      map_option (\<lambda>m. drop (length m) inp) (ext_here inp)"
  proof (cases "lit_match True ''.'' inp")
    case False
    then show ?thesis by (simp add: rests_Seq rests_Lit ext_here_def f)
  next
    case True
    show ?thesis
    proof (cases "filter (\<lambda>e. lit_match True e (drop 1 inp)) image_extensions")
      case Nil
      with True show ?thesis
        by (simp add: rests_Seq rests_Lit rests_Grp image_ext_alts rests_alts ext_here_def f)
    next
      case (Cons e es)
      then have "e \<in> set (filter (\<lambda>e. lit_match True e (drop 1 inp)) image_extensions)" by simp
      then have "lit_match True e (drop 1 inp)" by simp
      then have "length e \<le> length inp - 1" by (simp add: lit_match_iff)
      moreover from True have "1 \<le> length inp" by (simp add: lit_match_iff)
      ultimately have "Suc (length e) \<le> length inp" by simp
      with True Cons show ?thesis
        by (simp add: rests_Seq rests_Lit rests_Grp image_ext_alts rests_alts ext_here_def f min_absorb2)
    qed
  qed
next
  fix inp m
  assume "ext_here inp = Some m"
  then obtain e es where f: "filter (\<lambda>e. starts_with (CHR ''.'' # e) (lower inp)) image_extensions = e # es"
    and m: "m = take (Suc (length e)) inp"
    by (auto simp: ext_here_def split: list.splits)
  from f have "e \<in> set (filter (\<lambda>e. starts_with (CHR ''.'' # e) (lower inp)) image_extensions)" by simp
  then have "starts_with (CHR ''.'' # e) (lower inp)" by simp
  then obtain y where "lower inp = (CHR ''.'' # e) @ y" unfolding starts_with_iff ..
  moreover have "length inp = length (lower inp)" by (simp add: lower_def)
  ultimately have "Suc (length e) \<le> length inp" by simp
  then show "take (length m) inp = m \<and> length m \<le> length inp" unfolding m by (simp add: min_absorb2)
qed

lemma lit_dot: "lit_match True ''.'' r \<longleftrightarrow> (\<exists>cs. r = CHR ''.'' # cs)"
proof (cases r)
  case Nil
  then show ?thesis by simp
next
  case (Cons c cs)
  have "lower_chr c = lower_chr (CHR ''.'') \<longleftrightarrow> c = CHR ''.''"
    using lower_chr_fixed [of c "CHR ''.''"] by (auto simp: lower_chr_def code_def)
  then show ?thesis using Cons by simp
qed

lemma computes_word: "computes True (Seq (Lit ''.'') (Plus is_word)) word_here"
proof (rule computesI)
  fix inp
  show "first_of (rests True (Seq (Lit ''.'') (Plus is_word)) inp) =
      map_option (\<lambda>m. drop (length m) inp) (word_here inp)"
  proof (cases "lit_match True ''.'' inp")
    case False
    then have "rests True (Lit ''.'') inp = []" by (simp only: rests_Lit if_False)
    moreover from False have "word_here inp = None"
      unfolding lit_dot by (cases inp) (auto simp: word_here_def)
    ultimately show ?thesis by (simp add: rests_Seq)
  next
    case True
    then obtain cs where inp: "inp = CHR ''.'' # cs" unfolding lit_dot ..
    show ?thesis
    proof (cases cs)
      case Nil
      with inp True show ?thesis by (simp add: rests_Seq rests_Lit rests_Plus word_here_def)
    next
      case (Cons w ws)
      with inp True show ?thesis
        by (simp add: rests_Seq rests_Lit rests_Plus word_here_def star_rests_first dropWhile_eq_drop)
    qed
  qed
next
  fix inp m
  assume "word_here inp = Some m"
  then obtain c ws where "inp = c # ws" "m = c # takeWhile is_word ws"
    by (auto simp: word_here_def split: list.splits if_splits)
  then show "take (length m) inp = m \<and> length m \<le> length inp"
    by (simp add: takeWhile_eq_take [symmetric] length_takeWhile_le)
qed

subsection \<open>The three patterns of the source\<close>

lemma url_from_body: "url_from n e r = map_option (\<lambda>m. take n r @ m) (body_here e (drop n r))"
  by (simp add: url_from_def body_here_def option.map_comp comp_def split: list.splits)

lemma lower_prefixes:
  "lower ''www.'' = ''www.''" "lower ''http://'' = ''http://''" "lower ''https://'' = ''https://''"
  by (simp_all add: lower_def lower_chr_def code_def)

lemma computes_www:
  assumes "computes True t e"
  shows "computes True (Grp (Seq (Lit ''www.'') (Seq (Plus non_space) t)))
     (\<lambda>r. if starts_with ''www.'' (lower r) then url_from 4 e r else None)"
  by (rule computes_eq [OF computes_Grp [OF computes_Lit [OF computes_body [OF assms]]]])
     (simp add: lit_match_starts [OF lower_prefixes(1)] url_from_body eval_nat_numeral)

lemma www_image_rule: "match_here True rx_www_image = www_image_here"
proof
  fix r
  have "computes True rx_www_image www_image_here"
    unfolding rx_www_image_def seqs.simps
    by (rule computes_eq [OF computes_www [OF computes_ext]]) (simp add: www_image_here_def)
  then show "match_here True rx_www_image r = www_image_here r" by (rule computes_match_here)
qed

lemma www_any_rule: "match_here True rx_www_any = www_any_here"
proof
  fix r
  have "computes True rx_www_any www_any_here"
    unfolding rx_www_any_def seqs.simps
    by (rule computes_eq [OF computes_www [OF computes_word]]) (simp add: www_any_here_def)
  then show "match_here True rx_www_any r = www_any_here r" by (rule computes_match_here)
qed

lemma rests_scheme:
  "rests True (Seq (Lit ''http'') (Seq (Opt (Lit ''s'')) (Seq (Lit ''://'') b))) inp =
   rests True (Seq (Lit ''https://'') b) inp @ rests True (Seq (Lit ''http://'') b) inp"
proof -
  have a: "lit_match True ''https://'' inp \<longleftrightarrow>
      lit_match True ''http'' inp \<and> lit_match True ''s'' (drop 4 inp) \<and> lit_match True ''://'' (drop 5 inp)"
    using lit_match_append [of True "''http''" "''s://''" inp]
      lit_match_append [of True "''s''" "''://''" "drop 4 inp"] by (simp add: eval_nat_numeral)
  have b: "lit_match True ''http://'' inp \<longleftrightarrow>
      lit_match True ''http'' inp \<and> lit_match True ''://'' (drop 4 inp)"
    using lit_match_append [of True "''http''" "''://''" inp] by (simp add: eval_nat_numeral)
  show ?thesis
    by (simp add: rests_Seq rests_Lit rests_Opt a b eval_nat_numeral)
qed

lemma not_both_schemes: "starts_with ''https://'' x \<Longrightarrow> \<not> starts_with ''http://'' x"
  unfolding starts_with_iff by auto

lemma absolute_rule: "match_here True rx_image_url = absolute_url_here"
proof
  fix r
  have e: "computes True (Seq (Plus non_space) (Seq (Lit ''.'') (Grp image_ext))) (body_here ext_here)"
    by (rule computes_body [OF computes_ext])
  have "computes True rx_image_url absolute_url_here"
    unfolding rx_image_url_def seqs.simps
  proof (rule computes_eq [OF computes_Grp [OF computes_append [OF rests_scheme computes_Lit [OF e]
        computes_Lit [OF e]]]])
    fix x
    show "(case if lit_match True ''https://'' x
              then map_option ((@) (take (length ''https://'') x)) (body_here ext_here (drop (length ''https://'') x))
              else None of
           None \<Rightarrow>
             if lit_match True ''http://'' x
             then map_option ((@) (take (length ''http://'') x)) (body_here ext_here (drop (length ''http://'') x))
             else None
           | Some m \<Rightarrow> Some m) = absolute_url_here x"
      using not_both_schemes [of "lower x"]
      by (auto simp: lit_match_starts lower_prefixes absolute_url_here_def url_from_body eval_nat_numeral
          split: option.splits)
  qed
  then show "match_here True rx_image_url r = absolute_url_here r" by (rule computes_match_here)
qed

lemma search_group0:
  "(case re_search ic r t of Some (g0, gs) \<Rightarrow> f g0 | None \<Rightarrow> n) =
   (case leftmost (match_here ic r) t of Some u \<Rightarrow> f u | None \<Rightarrow> n)"
  unfolding search_leftmost [symmetric] by (auto split: option.splits)

lemma image_url_params_rule: "map_of (image_url_params t) ''image_url'' = image_url_rule t"
  unfolding image_url_cascade search_group0 absolute_rule www_image_rule www_any_rule image_url_rule_def ..

lemma extract_template_params_image:
  assumes "extract_template_params t v = Inr p"
  shows "map_of p ''image_url'' = image_url_rule t"
proof -
  consider "v = 1" | "v = 2" | "v = 3"
    | "v \<noteq> 1" "v \<noteq> 2" "v \<noteq> 3" by blast
  then show ?thesis
  proof cases
    case 1
    with assms have "template1_params t (image_url_params t) = Inr p"
      by (simp add: extract_template_params_def)
    with image_template1 [where t = t and p = "image_url_params t"] show ?thesis
      by (simp add: image_url_params_rule)
  next
    case 2
    with assms show ?thesis
      by (auto simp: extract_template_params_def image_template2 image_url_params_rule)
  next
    case 3
    with assms show ?thesis
      by (auto simp: extract_template_params_def image_template3 image_url_params_rule)
  next
    case 4
    with assms show ?thesis
      by (auto simp: extract_template_params_def image_url_params_rule)
  qed
qed

subsection \<open>The extraction returns on short texts\<close>

text \<open>
  A group of a match is no longer than the text, a number of at most 308 digits is below
  \<open>10 ^ 308\<close>, and such a number is rounded to a double below \<open>2 ^ 1024\<close>: the
  conversion of a price of a text of at most 308 characters does not overflow.
\<close>

lemma match_groups:
  "(gs, rest) \<in> set (rx_match ic r inp) \<Longrightarrow> g \<in> set gs \<Longrightarrow> length g \<le> length inp"
proof (induction r arbitrary: gs rest inp)
  case (Seq a b)
  from Seq.prems(1) obtain g1 r1 g2 where a: "(g1, r1) \<in> set (rx_match ic a inp)"
    and b: "(g2, rest) \<in> set (rx_match ic b r1)" and gs: "gs = g1 @ g2"
    unfolding match_Seq by blast
  from match_suffix [OF a] have l: "length r1 \<le> length inp" by auto
  from Seq.prems(2) gs have "g \<in> set g1 \<or> g \<in> set g2" by simp
  then show ?case
  proof
    assume "g \<in> set g1"
    from Seq.IH(1) [OF a this] show ?thesis .
  next
    assume "g \<in> set g2"
    from Seq.IH(2) [OF b this] l show ?thesis by simp
  qed
next
  case (Grp a)
  then show ?case by auto
qed (auto split: list.splits if_splits)

lemma search_group1_length:
  assumes "re_search ic r t = Some (g0, gs)"
  shows "length (group1 gs) \<le> length t"
proof (cases gs)
  case Nil
  then show ?thesis by (simp add: group1_def)
next
  case (Cons g gs')
  from re_search_Some [OF assms] obtain u inp rest where t: "t = u @ inp"
    and m: "(gs, rest) \<in> set (rx_match ic r inp)" by blast
  from match_groups [OF m, of g] Cons have "length g \<le> length inp" by simp
  with t Cons show ?thesis by (simp add: group1_def)
qed

lemma bits_nonneg: "0 \<le> bits n"
  by (induction n rule: bits.induct) (subst bits.simps, simp)

lemma bits_pos: "1 \<le> d \<Longrightarrow> 1 \<le> bits d"
  using bits_nonneg [of "d div 2"] by (subst bits.simps) simp

lemma bits_lower: "0 < n \<Longrightarrow> 2 ^ nat (bits n - 1) \<le> n"
proof (induction n rule: bits.induct)
  case (1 n)
  show ?case
  proof (cases "n div 2 = 0")
    case True
    with 1 have "n = 1" by presburger
    then show ?thesis by (simp add: bits.simps [of 1] bits.simps [of 0])
  next
    case False
    with 1 have h: "0 < n div 2" by presburger
    from 1 have IH: "2 ^ nat (bits (n div 2) - 1) \<le> n div 2" using h by simp
    from bits_pos [of "n div 2"] h have b: "1 \<le> bits (n div 2)" by simp
    have "bits n = 1 + bits (n div 2)" using 1 by (subst bits.simps) simp
    then have "nat (bits n - 1) = Suc (nat (bits (n div 2) - 1))" using b by simp
    then have "(2::int) ^ nat (bits n - 1) = 2 * 2 ^ nat (bits (n div 2) - 1)" by simp
    also have "\<dots> \<le> 2 * (n div 2)" using IH by simp
    also have "\<dots> \<le> n" by presburger
    finally show ?thesis .
  qed
qed

lemma round_half_even_le: "round_half_even a b \<le> a div b + 1"
  by (simp add: round_half_even_def Let_def)

lemma double_range: "(10::int) ^ 308 * (2 ^ 52 + 1) < 2 ^ 1024 * 2 ^ 52"
  by simp

lemma div_times_le:
  fixes n b m :: int
  assumes "0 \<le> n" "0 < m" "m \<le> b"
  shows "(n div b) * m \<le> n"
proof -
  have b: "0 < b" using assms by simp
  have q: "0 \<le> n div b" using assms(1) b by (simp add: pos_imp_zdiv_nonneg_iff)
  have "b * (n div b) + n mod b = n" by (rule mult_div_mod_eq)
  moreover have "0 \<le> n mod b" using b by (rule pos_mod_sign)
  ultimately have "b * (n div b) \<le> n" by linarith
  then have r: "(n div b) * b \<le> n" by (simp only: mult.commute)
  have "(n div b) * m \<le> (n div b) * b" using assms(3) q by (rule mult_left_mono)
  with r show ?thesis by linarith
qed

lemma rounded_bound:
  fixes n d c m :: int
  assumes n: "0 \<le> n" and d: "1 \<le> d" and m: "0 < m" and c: "0 < c" and p: "m * c \<le> n"
  shows "round_half_even n (d * m) * m * c \<le> n * (c + 1)"
proof -
  have mb: "m \<le> d * m" using d m by (simp add: mult_le_cancel_right1)
  have l: "(n div (d * m)) * m \<le> n" using n m mb by (rule div_times_le)
  have "round_half_even n (d * m) * m \<le> (n div (d * m) + 1) * m"
    using round_half_even_le [of n "d * m"] m by (simp only: mult_right_mono less_imp_le)
  also have "\<dots> = (n div (d * m)) * m + m" by (simp only: distrib_right mult_1)
  also have "\<dots> \<le> n + m" using l by simp
  finally have "round_half_even n (d * m) * m * c \<le> (n + m) * c"
    using c by (simp only: mult_right_mono less_imp_le)
  also have "\<dots> = n * c + m * c" by (simp only: distrib_right)
  also have "\<dots> \<le> n * c + n" using p by simp
  also have "\<dots> = n * (c + 1)" by (simp only: distrib_left mult_1_right)
  finally show ?thesis .
qed

lemma rounded_below:
  fixes n d :: int and k :: nat
  assumes n: "0 < n" "n < 10 ^ 308" and d: "1 \<le> d" and k: "k + 52 \<le> nat (bits n - 1)"
  shows "round_half_even n (d * 2 ^ k) * 2 ^ k < 2 ^ 1024"
proof -
  have "(2::int) ^ (k + 52) \<le> 2 ^ nat (bits n - 1)" using k by (rule power_increasing) simp
  also have "\<dots> \<le> n" using n(1) by (rule bits_lower)
  finally have p: "(2::int) ^ k * 2 ^ 52 \<le> n" by (simp only: power_add)
  have n0: "0 \<le> n" using n(1) by simp
  have m: "(0::int) < 2 ^ k" by simp
  have c: "(0::int) < 2 ^ 52" by simp
  have "round_half_even n (d * 2 ^ k) * 2 ^ k * 2 ^ 52 \<le> n * (2 ^ 52 + 1)"
    using n0 d m c p by (rule rounded_bound)
  also have "\<dots> < 10 ^ 308 * (2 ^ 52 + 1)"
    using n(2) by (rule mult_strict_right_mono) simp
  also note double_range
  finally show ?thesis using c by (simp only: mult_less_cancel_right_pos)
qed

lemma int_of_float_ratio_total:
  assumes n: "0 \<le> n" "n < 10 ^ 308" and d: "1 \<le> d"
  shows "\<exists>v. int_of_float_ratio n d = Inr v"
proof (cases "n = 0")
  case True
  then show ?thesis by (simp add: int_of_float_ratio_def)
next
  case False
  with n have pos: "0 < n" by simp
  define e0 where "e0 = bits n - bits d"
  define e where "e = (if (if 0 \<le> e0 then d * 2 ^ nat e0 \<le> n else d \<le> n * 2 ^ nat (- e0)) then e0 else e0 - 1)"
  define s where "s = 52 - e"
  have "e \<le> e0" unfolding e_def by simp
  also have "\<dots> \<le> bits n - 1" unfolding e0_def using bits_pos [OF d] by simp
  finally have eb: "e \<le> bits n - 1" .
  show ?thesis
  proof (cases "0 \<le> s")
    case True
    then show ?thesis
      unfolding int_of_float_ratio_def Let_def e0_def [symmetric] e_def [symmetric] s_def [symmetric]
      using False by (simp only: if_True if_False) blast
  next
    case neg: False
    have "nat (- s) + 52 \<le> nat (bits n - 1)" using neg eb unfolding s_def by simp
    from rounded_below [OF pos n(2) d this]
    have "\<not> 2 ^ 1024 \<le> round_half_even n (d * 2 ^ nat (- s)) * 2 ^ nat (- s)" by (simp only: not_le)
    then show ?thesis
      unfolding int_of_float_ratio_def Let_def e0_def [symmetric] e_def [symmetric] s_def [symmetric]
      using False neg by (simp only: if_True if_False) blast
  qed
qed

lemma int_of_digits_bound:
  "list_all is_digit ds \<Longrightarrow> 0 \<le> int_of_digits ds \<and> int_of_digits ds < 10 ^ length ds"
proof (induction ds rule: rev_induct)
  case Nil
  show ?case by (simp add: int_of_digits_def)
next
  case (snoc c ds)
  then have IH: "0 \<le> int_of_digits ds" "int_of_digits ds < 10 ^ length ds"
    and c: "48 \<le> code c" "code c \<le> 57"
    by (simp_all add: is_digit_def Let_def)
  have e: "int_of_digits (ds @ [c]) = 10 * int_of_digits ds + (code c - 48)"
    by (simp add: int_of_digits_def)
  from IH(2) have "int_of_digits ds + 1 \<le> 10 ^ length ds" by simp
  then have "10 * (int_of_digits ds + 1) \<le> 10 * 10 ^ length ds" by (simp only: mult_left_mono)
  with IH(1) c show ?case unfolding e by simp
qed

lemma py_int_float_short:
  assumes "length s \<le> 308"
  shows "py_int_float s \<noteq> Inl OverflowError"
proof -
  define ip where "ip = takeWhile (\<lambda>c. c \<noteq> CHR ''.'') s"
  define fp where "fp = drop 1 (dropWhile (\<lambda>c. c \<noteq> CHR ''.'') s)"
  have r: "py_int_float s =
      (if \<not> list_all is_digit (ip @ fp) \<or> ip @ fp = [] then Inl ValueError
       else int_of_float_ratio (int_of_digits (ip @ fp)) (10 ^ length fp))"
    unfolding py_int_float_def Let_def ip_def fp_def ..
  show ?thesis
  proof (cases "\<not> list_all is_digit (ip @ fp) \<or> ip @ fp = []")
    case True
    then show ?thesis unfolding r by simp
  next
    case False
    then have dg: "list_all is_digit (ip @ fp)" by simp
    have "length ip + length (dropWhile (\<lambda>c. c \<noteq> CHR ''.'') s) = length s"
      unfolding ip_def by (metis length_append takeWhile_dropWhile_id)
    then have "length (ip @ fp) \<le> length s" unfolding fp_def by simp
    with assms have "length (ip @ fp) \<le> 308" by simp
    then have "(10::int) ^ length (ip @ fp) \<le> 10 ^ 308" by (rule power_increasing) simp
    with int_of_digits_bound [OF dg]
    have n: "0 \<le> int_of_digits (ip @ fp)" "int_of_digits (ip @ fp) < 10 ^ 308" by simp_all
    have "(1::int) \<le> 10 ^ length fp" by simp
    from int_of_float_ratio_total [OF n this] False show ?thesis unfolding r by auto
  qed
qed

lemma set_price_short:
  assumes "length raw \<le> 308"
  shows "\<exists>p'. set_price raw p = Inr p'"
proof -
  have "length (filter (\<lambda>c. c \<noteq> CHR '','') raw) \<le> 308"
    by (rule le_trans [OF length_filter_le assms])
  from py_int_float_short [OF this] py_int_float_errors [of "filter (\<lambda>c. c \<noteq> CHR '','') raw"]
  show ?thesis
    unfolding set_price_def by (auto split: sum.splits py_error.splits)
qed

lemma price_params_short:
  assumes "length t \<le> 308"
  shows "\<exists>p'. price_params t p = Inr p'"
proof -
  have "\<exists>p'. set_price (group1 gs) p = Inr p'" if "re_search ic r t = Some (g0, gs)" for ic r g0 gs
    using search_group1_length [OF that] assms by (intro set_price_short) simp
  then show ?thesis
    unfolding price_params_def by (auto split: option.splits)
qed

lemma extract_template_params_short:
  assumes "v \<noteq> 1 \<or> length t \<le> 308"
  shows "\<exists>p. extract_template_params t v = Inr p"
proof (cases "v = 1")
  case True
  with assms have "length t \<le> 308" by simp
  from price_params_short [OF this, of "image_url_params t"] True show ?thesis
    by (auto simp: extract_template_params_def template1_params_def Let_def)
next
  case False
  then show ?thesis by (simp add: extract_template_params_def Let_def)
qed

section \<open>The claims of the specification\<close>

subsection \<open>The regeneration flag\<close>

text \<open>
  Claim C1, as stated, fails: no step of a turn ever clears \<open>force_generation\<close>. In the
  chat below the first turn sets the flag and runs the generation branch (the status is
  TEMPLATE_GENERATED), and the flag is still set at the end of that turn and after two
  further full turns.
\<close>

theorem force_generation_kept_counterexample:
  "force_generation get_initial_state = False \<and>
   map_sum id status
     (run_turns mock_render fixed_reply [''generate www.a.com/b.png $5''] get_initial_state) =
     Inr TEMPLATE_GENERATED \<and>
   map_sum id force_generation
     (run_turns mock_render fixed_reply [''generate www.a.com/b.png $5''] get_initial_state) = Inr True \<and>
   map_sum id force_generation
     (run_turns mock_render fixed_reply [''generate www.a.com/b.png $5'', ''thanks'', ''thanks'']
        get_initial_state) = Inr True"
  by code_simp

text \<open>
  Claim C1, amended: the flag is never cleared by turn processing. If it is set when a
  turn starts, it is set in the state the turn returns, whatever the renderer and the
  language model answer.
\<close>

theorem force_generation_never_cleared:
  assumes f: "force_generation s" and a: "agent_invoke render llm s = Inr s'"
  shows "force_generation s'"
proof -
  from a obtain s1 where u: "user_turn s = Inr s1"
    by (cases "user_turn s") (auto simp: agent_invoke_def)
  have f1: "force_generation s1" using f u by (rule user_turn_force_mono)
  define s2 where "s2 = check_requirements s1"
  have f2: "force_generation s2" using f1 by (simp add: s2_def)
  from a have a': "(case (if route_generate s2 then generate_template render s2 else Inr s2) of
      Inl e \<Rightarrow> Inl e | Inr s3 \<Rightarrow> ai_turn llm s3) = Inr s'"
    unfolding agent_invoke_def Let_def u sum.case s2_def .
  then obtain s3 where g: "(if route_generate s2 then generate_template render s2 else Inr s2) = Inr s3"
    and ai: "ai_turn llm s3 = Inr s'"
    by (cases "if route_generate s2 then generate_template render s2 else Inr s2") auto
  have f3: "force_generation s3"
    using g f2 generate_template_force [of render s2 s3] by (auto split: if_splits)
  show ?thesis using ai_turn_force [OF ai] f3 by simp
qed

theorem force_generation_never_cleared_witness:
  "force_generation ((generated_state ''thanks'')\<lparr>force_generation := True\<rparr>) \<and>
   agent_invoke mock_render fixed_reply ((generated_state ''thanks'')\<lparr>force_generation := True\<rparr>) =
     Inr ((generated_state ''thanks'')\<lparr>messages := [(Human, ''thanks''), (AI, ''ok'')],
            force_generation := True\<rparr>) \<and>
   force_generation ((generated_state ''thanks'')\<lparr>messages := [(Human, ''thanks''), (AI, ''ok'')],
            force_generation := True\<rparr>)"
proof -
  have h1: "force_generation ((generated_state ''thanks'')\<lparr>force_generation := True\<rparr>)"
    by simp
  have h2: "agent_invoke mock_render fixed_reply ((generated_state ''thanks'')\<lparr>force_generation := True\<rparr>) =
     Inr ((generated_state ''thanks'')\<lparr>messages := [(Human, ''thanks''), (AI, ''ok'')],
            force_generation := True\<rparr>)"
    by code_simp
  from h1 h2 force_generation_never_cleared [OF h1 h2] show ?thesis by blast
qed

text \<open>
  Claim C4, as stated, fails: after a generated poster the message "yes" changes no
  parameter and holds no price phrase, so none of the three conditions holds, yet the
  final status update sets the flag, and the last generation result is kept.
\<close>

theorem user_turn_flag_counterexample:
  "user_turn (generated_state ''yes'') =
     Inr ((generated_state ''yes'')\<lparr>status := READY_TO_GENERATE, force_generation := True\<rparr>) \<and>
   force_generation (generated_state ''yes'') = False \<and>
   generation_result (generated_state ''yes'') \<noteq> None \<and>
   extract_template_params ''yes'' 1 = Inr [] \<and>
   direct_price ''yes'' 1 [] = Inr (False, [])"
  by code_simp

text \<open>
  Claim C4, amended. When the last user message is \<open>content\<close> and the turn completes, the
  flag is set after the turn exactly when it was set before, or the first rule holds
  ((a regeneration or show-me keyword and a changed parameter) or (a changed parameter
  and status READY_TO_GENERATE or TEMPLATE_GENERATED) or a direct price modification),
  or the required parameters are all present after the merge and the message has a
  regeneration keyword or a direct price modification. The generation result is cleared
  exactly when the first rule holds. A message with no regeneration keyword, no direct
  price modification and no changed parameter leaves the flag and the result as they were.
\<close>

theorem user_turn_force_generation:
  assumes hm: "filter (\<lambda>m. fst m = Human) (messages s) \<noteq> []"
    and c: "content = snd (last (filter (\<lambda>m. fst m = Human) (messages s)))"
    and s1: "s1 = switch_template (extract_template_preference content) s"
    and ex: "extract_template_params content (template_version s1) = Inr extracted"
    and dp: "direct_price content (template_version s1) extracted = Inr (price_modification, extracted_params)"
    and ch: "changed = params_changed (case template_params s1 of None \<Rightarrow> [] | Some p \<Rightarrow> p) extracted_params"
    and rg: "regeneration = any_keyword regeneration_keywords content"
    and fc: "first_rule = force_condition regeneration (any_keyword url_keywords content) changed
               price_modification (status s1)"
  shows "\<exists>s'. user_turn s = Inr s' \<and>
           force_generation s' =
             (force_generation s \<or> first_rule \<or> (params_ready s' \<and> (regeneration \<or> price_modification))) \<and>
           generation_result s' = (if first_rule then None else generation_result s) \<and>
           (\<not> regeneration \<and> \<not> price_modification \<and> \<not> changed \<longrightarrow>
              force_generation s' = force_generation s \<and> generation_result s' = generation_result s)"
proof -
  have v: "template_version s1 \<in> {1, 2, 3}"
    unfolding s1 switch_template_version by (rule extract_template_preference_range)
  have pmv: "price_modification \<longrightarrow> template_version s1 = 1"
    using direct_price_version [OF dp] by blast
  define s3 where "s3 = merge_and_force s1 content price_modification extracted_params"
  have ut: "user_turn s = Inr (update_status regeneration price_modification s3)"
    by (simp add: user_turn_unfold [OF hm c s1] ex dp s3_def rg)
  have v3: "template_version s3 \<in> {1, 2, 3}" and pm3: "price_modification \<longrightarrow> template_version s3 = 1"
    using v pmv by (simp_all add: s3_def merge_and_force_fields)
  have f3: "force_generation s3 = (force_generation s \<or> first_rule)"
    by (simp add: s3_def merge_and_force_fields s1 fc ch rg)
  have g3: "generation_result s3 = (if first_rule then None else generation_result s)"
    by (simp add: s3_def merge_and_force_fields s1 fc ch rg)
  have r3: "params_ready (update_status regeneration price_modification s3) = params_ready s3"
    by (simp add: params_ready_def)
  have F: "force_generation (update_status regeneration price_modification s3) =
      (force_generation s \<or> first_rule \<or>
       (params_ready (update_status regeneration price_modification s3) \<and> (regeneration \<or> price_modification)))"
    unfolding r3 update_status_force [OF v3 pm3] f3 by blast
  have nr: "\<not> regeneration \<and> \<not> price_modification \<and> \<not> changed \<longrightarrow> \<not> first_rule"
    by (auto simp: fc force_condition_def)
  have G: "generation_result (update_status regeneration price_modification s3) =
      (if first_rule then None else generation_result s)"
    using g3 by simp
  have L: "force_generation (update_status regeneration price_modification s3) = force_generation s \<and>
      generation_result (update_status regeneration price_modification s3) = generation_result s"
    if h: "\<not> regeneration \<and> \<not> price_modification \<and> \<not> changed"
  proof -
    from nr h have "\<not> first_rule" by blast
    with F G h show ?thesis by simp
  qed
  from ut F G L show ?thesis by blast
qed

theorem user_turn_force_generation_witness:
  "\<exists>s'. user_turn (generated_state ''make it $600'') = Inr s' \<and> force_generation s' \<and>
        generation_result s' = None"
proof -
  let ?s = "generated_state ''make it $600''"
  have hm: "filter (\<lambda>m. fst m = Human) (messages ?s) \<noteq> []"
    by (simp add: generated_state_def)
  have c: "''make it $600'' = snd (last (filter (\<lambda>m. fst m = Human) (messages ?s)))"
    by (simp add: generated_state_def)
  have s1: "?s = switch_template (extract_template_preference ''make it $600'') ?s"
    by code_simp
  have ex: "extract_template_params ''make it $600'' (template_version ?s) = Inr [(''property_price'', ''$600'')]"
    by code_simp
  have dp: "direct_price ''make it $600'' (template_version ?s) [(''property_price'', ''$600'')] =
      Inr (False, [(''property_price'', ''$600'')])"
    by code_simp
  have ch: "True = params_changed (case template_params ?s of None \<Rightarrow> [] | Some p \<Rightarrow> p)
      [(''property_price'', ''$600'')]"
    by code_simp
  have rg: "True = any_keyword regeneration_keywords ''make it $600''"
    by code_simp
  have fc: "True = force_condition True (any_keyword url_keywords ''make it $600'') True False (status ?s)"
    by code_simp
  from user_turn_force_generation [OF hm c s1 ex dp ch rg fc] show ?thesis
    by auto
qed

subsection \<open>The turn processor without a user message\<close>

text \<open>
  Claim C10: if the chat history holds no user (human) message, the turn processor
  returns the state as it is, every field unchanged.
\<close>

theorem user_turn_without_human_message:
  "filter (\<lambda>m. fst m = Human) (messages s) = [] \<Longrightarrow> user_turn s = Inr s"
  by (simp add: user_turn_def)

theorem user_turn_without_human_message_witness:
  "filter (\<lambda>m. fst m = Human) (messages get_initial_state) = [] \<and>
   user_turn get_initial_state = Inr get_initial_state"
proof -
  have h: "filter (\<lambda>m. fst m = Human) (messages get_initial_state) = []"
    by (simp add: get_initial_state_def)
  from h user_turn_without_human_message [OF h] show ?thesis by (rule conjI)
qed

subsection \<open>The requirement checker\<close>

text \<open>
  Claim C5, as stated, fails for an empty parameter mapping when the flag is set: the
  checker tests for a missing mapping only, and answers READY_TO_GENERATE.
\<close>

theorem check_requirements_empty_forced_counterexample:
  "template_params forced_empty_state = Some [] \<and>
   status (check_requirements forced_empty_state) = READY_TO_GENERATE"
  by (simp add: forced_empty_state_def check_requirements_def)

text \<open>
  Claim C5, amended: the checker changes the status only. The new status is
  COLLECTING_INFO when the parameter mapping is absent; otherwise READY_TO_GENERATE when
  the flag is set, without a look at the fields (also for an empty mapping); otherwise
  READY_TO_GENERATE if every required parameter of the active template is present
  (template 1: image_url and property_price; any other template: image_url) and
  COLLECTING_INFO if not.
\<close>

theorem check_requirements_status:
  "check_requirements s = s\<lparr>status :=
     (case template_params s of
        None \<Rightarrow> COLLECTING_INFO
      | Some p \<Rightarrow>
          if force_generation s then READY_TO_GENERATE
          else if template_version s = 1
            then (if has_key ''image_url'' p \<and> has_key ''property_price'' p
                  then READY_TO_GENERATE else COLLECTING_INFO)
            else (if has_key ''image_url'' p then READY_TO_GENERATE else COLLECTING_INFO))\<rparr>"
  by (simp add: check_requirements_def required_params_def Let_def split: option.split)

theorem check_requirements_status_witness:
  "status (check_requirements (collecting_state [])) = COLLECTING_INFO \<and>
   status (check_requirements (collecting_state [(''image_url'', ''https://www.a.com/b.png'')])) =
     COLLECTING_INFO \<and>
   status (check_requirements (collecting_state
     [(''image_url'', ''https://www.a.com/b.png''), (''property_price'', ''$5'')])) = READY_TO_GENERATE"
  using check_requirements_status [of "collecting_state []"]
    check_requirements_status [of "collecting_state [(''image_url'', ''https://www.a.com/b.png'')]"]
    check_requirements_status [of "collecting_state
      [(''image_url'', ''https://www.a.com/b.png''), (''property_price'', ''$5'')]"]
  by (simp add: collecting_state_def has_key_def)

subsection \<open>The template generator\<close>

text \<open>
  Claim C6, as stated, fails for a state whose parameter mapping is absent, as in the
  initial state: the copy of the mapping raises AttributeError, which leaves the function.
\<close>

theorem generate_template_absent_params_counterexample:
  "template_params get_initial_state = None \<and>
   generate_template mock_render get_initial_state = Inl AttributeError"
  by (simp add: generate_template_def get_initial_state_def)

text \<open>
  Claim C6, amended: for every state whose parameter mapping is present, a generation
  attempt that does not succeed returns the state with one explanatory system message
  appended to the history and status COLLECTING_INFO, every other field (the collected
  parameters among them) unchanged. When image_url is missing or empty this holds for
  every renderer, which is not called; when the renderer fails with a message, the note
  tells an image URL validation error from any other failure.
\<close>

theorem generate_template_failure:
  assumes "template_params s = Some p"
  shows "(map_of p ''image_url'' = None \<or> map_of p ''image_url'' = Some [] \<longrightarrow>
           (\<forall>render. generate_template render s =
              Inr (s\<lparr>messages := messages s @ [(System, missing_image_note)],
                     status := COLLECTING_INFO\<rparr>))) \<and>
         (\<forall>u msg. map_of p ''image_url'' = Some u \<and> u \<noteq> [] \<and> render (template_version s) p = Inl msg \<longrightarrow>
            generate_template render s =
              Inr (s\<lparr>messages := messages s @ [(System, render_error_note msg)],
                     status := COLLECTING_INFO\<rparr>))"
  using assms by (auto simp: generate_template_def)

theorem generate_template_failure_witness:
  "generate_template mock_render (collecting_state [(''property_price'', ''$5'')]) =
     Inr ((collecting_state [(''property_price'', ''$5'')])\<lparr>messages := [(System, missing_image_note)]\<rparr>) \<and>
   generate_template failing_render (collecting_state [(''image_url'', ''https://www.a.com/b.png'')]) =
     Inr ((collecting_state [(''image_url'', ''https://www.a.com/b.png'')])\<lparr>messages :=
       [(System, ''Error generating template: Render request failed. Response code: 500'')]\<rparr>)"
proof -
  have p1: "template_params (collecting_state [(''property_price'', ''$5'')]) = Some [(''property_price'', ''$5'')]"
    by (simp add: collecting_state_def)
  have p2: "template_params (collecting_state [(''image_url'', ''https://www.a.com/b.png'')]) =
      Some [(''image_url'', ''https://www.a.com/b.png'')]"
    by (simp add: collecting_state_def)
  have n: "render_error_note ''Render request failed. Response code: 500'' =
      ''Error generating template: Render request failed. Response code: 500''"
    by code_simp
  show ?thesis
    using generate_template_failure [OF p1, of mock_render]
      generate_template_failure [OF p2, of failing_render]
    by (simp add: collecting_state_def failing_render_def n)
qed

subsection \<open>The keys of the parameters\<close>

text \<open>
  Claim C2 holds for templates 1 and 2 (\<open>extract_template_params_keys\<close>,
  \<open>user_turn_params_valid\<close>), and fails for template 3 at the input below: the
  extraction for template 3 stores the button colour under \<open>cta_color\<close>, which is a
  parameter of template 1 and not among the customizable elements of template 3; a turn
  of the session puts it into the parameters of a template-3 session.
\<close>

theorem template3_button_color_key:
  "extract_template_params ''button color red'' 3 = Inr [(''cta_color'', ''red'')] \<and>
   ''cta_color'' \<notin> set (customizable_elements 3) \<and>
   map_sum id template_version
     (user_turn (get_initial_state\<lparr>messages := [(Human, ''template 3 button color red'')]\<rparr>)) = Inr 3 \<and>
   map_sum id template_params
     (user_turn (get_initial_state\<lparr>messages := [(Human, ''template 3 button color red'')]\<rparr>)) =
     Inr (Some [(''cta_color'', ''red'')])"
  by code_simp

subsection \<open>Colour adjective against the explicit colour phrase\<close>

text \<open>
  Claim C3, as stated, fails: the explicit phrase is looked for first and the adjectives
  after it. In the text below the explicit phrase gives the button the colour \<open>red\<close>,
  and the adjective before "buy now" overwrites it with its hex value.
\<close>

theorem explicit_color_overwritten_counterexample:
  "re_findall False rx_color_should_be ''I want a yellow buy now. buy now color should be red'' =
     [['' buy now'', ''red'']] \<and>
   color_field (lower (strip '' buy now'')) = Some ''cta_color'' \<and>
   extract_template_params ''I want a yellow buy now. buy now color should be red'' 1 =
     Inr [(''cta_color'', ''#FFD700'')]"
  by code_simp

text \<open>
  Claim C3, amended: for every template-1 text in which a colour adjective of the table
  stands right before a keyword of an element (buy now or button, modern, home, for
  sale, price, website), the adjective rule wins: whatever an explicit "color should be"
  phrase gave, the extracted colour of that element is the hex value of the adjective,
  the last one in the order of the table when several stand before the element.
\<close>

theorem adjective_color_wins:
  assumes "(key, kws) \<in> set adjective_keywords"
    and "adjective_hits text kws \<noteq> []"
    and "extract_template_params text 1 = Inr p"
  shows "map_of p key = Some (snd (last (adjective_hits text kws)))"
proof -
  from assms(3) obtain p3 where p: "p = foldl (adjective_step text) p3 color_adjectives"
    by (auto simp: extract_template_params_def template1_params_def Let_def split: sum.splits)
  from assms(2) obtain y ys where "adjective_hits text kws = y # ys"
    by (cases "adjective_hits text kws") auto
  then show ?thesis
    unfolding p adjective_fold_field [OF assms(1)]
    by (simp add: adjective_hits_def)
qed

theorem adjective_color_wins_witness:
  "adjective_hits ''red button. cta color should be #123456'' [''buy now'', ''button''] =
     [(''red'', ''#FF0000'')] \<and>
   extract_template_params ''red button. cta color should be #123456'' 1 =
     Inr [(''cta_color'', ''#FF0000'')] \<and>
   map_of [(''cta_color'', ''#FF0000'')] ''cta_color'' =
     Some (snd (last (adjective_hits ''red button. cta color should be #123456'' [''buy now'', ''button''])))"
proof -
  have k: "(''cta_color'', [''buy now'', ''button'']) \<in> set adjective_keywords"
    by (simp add: adjective_keywords_def)
  have h: "adjective_hits ''red button. cta color should be #123456'' [''buy now'', ''button''] =
     [(''red'', ''#FF0000'')]"
    by code_simp
  then have ne: "adjective_hits ''red button. cta color should be #123456'' [''buy now'', ''button''] \<noteq> []"
    by simp
  have e: "extract_template_params ''red button. cta color should be #123456'' 1 =
     Inr [(''cta_color'', ''#FF0000'')]"
    by code_simp
  from h e adjective_color_wins [OF k ne e] show ?thesis by blast
qed

subsection \<open>The price\<close>

text \<open>
  Examples of the price rules: a bare amount, a modification phrase next to a bare amount,
  and a number that does not parse, which is kept as matched.
\<close>

lemma price_examples:
  "extract_template_params ''$450,000'' 1 = Inr [(''property_price'', ''$450,000'')] \<and>
   extract_template_params ''modify the price to 500000 not $3'' 1 =
     Inr [(''property_price'', ''$500,000'')] \<and>
   extract_template_params ''the cost is 1.2.3'' 1 = Inr [(''property_price'', ''$1.2.3'')]"
  by code_simp

text \<open>
  Claim C7 fails at a matched number too large for a double: \<open>float\<close> gives infinity,
  \<open>int\<close> raises OverflowError, the handler catches ValueError only, and the exception
  leaves the extraction instead of the raw digits being used.
\<close>

theorem price_overflow_escapes:
  "extract_template_params overflow_price_text 1 = Inl OverflowError"
proof -
  have "int_of_float_ratio (10 ^ 309) 1 = Inl OverflowError" by code_simp
  then show ?thesis unfolding overflow_price_text_def by (rule digits_price)
qed

subsection \<open>The image URL\<close>

text \<open>
  Claim C8, as stated, fails. Rule (c) does not take any www URL: it needs a further dot
  with a word character after it, so the first text below gives no image URL. Rule (a)
  does not ask that the URL ends in the extension, and the URL is not taken as it
  stands: in the second text the absolute URL goes on after \<open>.png\<close>, rule (a) matches
  all the same and gives the URL cut after the extension, and the www image of rule (b)
  is never looked at.
\<close>

theorem image_url_words_counterexample:
  "extract_template_params ''see www.example/pic'' 2 = Inr [] \<and>
   extract_template_params ''http://a.com/pic.png?size=2 www.c.com/d.jpg'' 2 =
     Inr [(''image_url'', ''http://a.com/pic.png'')]"
  by code_simp

text \<open>
  Claim C8, amended. The extraction returns for every text when the template is not
  template 1, and for every text of at most 308 characters when it is (a longer text can
  hold a price that overflows). Whenever it returns, for every template version, the
  image URL of the parameters is what the three rules give, tried in their order, each
  at the leftmost position where it matches, the first that matches and none after it:
  (a) \<open>http://\<close> or \<open>https://\<close> in any letter case, at least one non-blank character,
  and within the same run of non-blank characters a dot with jpg, jpeg, png, gif or webp
  in any letter case; the URL runs to the last such extension of the run, what follows
  it is cut off; (b) the same after \<open>www.\<close>, with \<open>https://\<close> put before it;
  (c) \<open>www.\<close>, at least one non-blank character, and within the same run a dot with
  at least one word character after it; the URL runs through the word characters after
  the last such dot, with \<open>https://\<close> put before it. No rule matching, there is no
  image URL.
\<close>

theorem image_url_follows_rule:
  "(v \<noteq> 1 \<or> length t \<le> 308 \<longrightarrow> (\<exists>p. extract_template_params t v = Inr p)) \<and>
   (\<forall>p. extract_template_params t v = Inr p \<longrightarrow> map_of p ''image_url'' = image_url_rule t)"
  using extract_template_params_short [of v t] extract_template_params_image [of t v] by blast

theorem image_url_follows_rule_witness:
  "extract_template_params ''see HTTPS://a.com/x.JPEG?y=1.png&z www.q.org/r.gif'' 3 =
     Inr [(''image_url'', ''HTTPS://a.com/x.JPEG?y=1.png'')] \<and>
   image_url_rule ''see HTTPS://a.com/x.JPEG?y=1.png&z www.q.org/r.gif'' =
     Some ''HTTPS://a.com/x.JPEG?y=1.png'' \<and>
   extract_template_params ''check www.site.com/pic.jpg'' 2 =
     Inr [(''image_url'', ''https://www.site.com/pic.jpg'')] \<and>
   image_url_rule ''check www.site.com/pic.jpg'' = Some ''https://www.site.com/pic.jpg'' \<and>
   length ''use www.photos.example.org/house for it'' \<le> 308 \<and>
   extract_template_params ''use www.photos.example.org/house for it'' 1 =
     Inr [(''image_url'', ''https://www.photos.example.org'')] \<and>
   image_url_rule ''use www.photos.example.org/house for it'' =
     Some ''https://www.photos.example.org''"
proof -
  have a: "extract_template_params ''see HTTPS://a.com/x.JPEG?y=1.png&z www.q.org/r.gif'' 3 =
     Inr [(''image_url'', ''HTTPS://a.com/x.JPEG?y=1.png'')]"
    by code_simp
  have b: "extract_template_params ''check www.site.com/pic.jpg'' 2 =
     Inr [(''image_url'', ''https://www.site.com/pic.jpg'')]"
    by code_simp
  have l: "length ''use www.photos.example.org/house for it'' \<le> 308" by simp
  have c: "extract_template_params ''use www.photos.example.org/house for it'' 1 =
     Inr [(''image_url'', ''https://www.photos.example.org'')]"
    by code_simp
  from a image_url_follows_rule [where v = 3
      and t = "''see HTTPS://a.com/x.JPEG?y=1.png&z www.q.org/r.gif''"]
  have "map_of [(''image_url'', ''HTTPS://a.com/x.JPEG?y=1.png'')] ''image_url'' =
      image_url_rule ''see HTTPS://a.com/x.JPEG?y=1.png&z www.q.org/r.gif''"
    by blast
  then have ra: "image_url_rule ''see HTTPS://a.com/x.JPEG?y=1.png&z www.q.org/r.gif'' =
      Some ''HTTPS://a.com/x.JPEG?y=1.png''"
    by simp
  from b image_url_follows_rule [where v = 2 and t = "''check www.site.com/pic.jpg''"]
  have "map_of [(''image_url'', ''https://www.site.com/pic.jpg'')] ''image_url'' =
      image_url_rule ''check www.site.com/pic.jpg''"
    by blast
  then have rb: "image_url_rule ''check www.site.com/pic.jpg'' = Some ''https://www.site.com/pic.jpg''"
    by simp
  from l image_url_follows_rule [where v = 1 and t = "''use www.photos.example.org/house for it''"]
  obtain p where p: "extract_template_params ''use www.photos.example.org/house for it'' 1 = Inr p"
    and r: "map_of p ''image_url'' = image_url_rule ''use www.photos.example.org/house for it''"
    by blast
  from p c have "p = [(''image_url'', ''https://www.photos.example.org'')]" by simp
  with r have rc: "image_url_rule ''use www.photos.example.org/house for it'' =
      Some ''https://www.photos.example.org''"
    by simp
  from a ra b rb l c rc show ?thesis by blast
qed

text \<open>An absolute URL with an image extension is taken as it stands, before any www URL.\<close>

lemma image_url_absolute_example:
  "extract_template_params ''see http://a.com/b.jpg and www.c.com/d.png'' 3 =
     Inr [(''image_url'', ''http://a.com/b.jpg'')]"
  by code_simp

subsection \<open>The template choice\<close>



end
